theory Spec2Isabelle
  imports Complex_Main
begin

text \<open>
  A shallow embedding of the GraphML loader and of Dijkstra's algorithm of index.ts and
  graph.ts, and the properties of the specification stated and settled on it. The first part
  follows the source function by function; the second part defines the example documents and
  the notions the properties speak of; the third part holds the lemmas and theorems.
\<close>

section \<open>Numbers\<close>

text \<open>
  A JavaScript \<^verbatim>\<open>number\<close>. The finite doubles are idealised as reals: sums of finite
  numbers are exact (no rounding, no overflow to an infinity). The special values
  \<^verbatim>\<open>NaN\<close>, \<^verbatim>\<open>Infinity\<close> and \<^verbatim>\<open>-Infinity\<close> are kept, because the lookup table is
  initialised with \<^verbatim>\<open>Infinity\<close> and the loader lets some of them through.
\<close>

datatype number = NaN | NegInfinity | Finite real | Infinity

text \<open>The operator \<^verbatim>\<open>+\<close> on two numbers.\<close>

fun num_add :: "number \<Rightarrow> number \<Rightarrow> number" where
  "num_add NaN _ = NaN"
| "num_add _ NaN = NaN"
| "num_add Infinity NegInfinity = NaN"
| "num_add NegInfinity Infinity = NaN"
| "num_add Infinity _ = Infinity"
| "num_add _ Infinity = Infinity"
| "num_add NegInfinity _ = NegInfinity"
| "num_add _ NegInfinity = NegInfinity"
| "num_add (Finite a) (Finite b) = Finite (a + b)"

text \<open>The operator \<^verbatim>\<open><\<close> on two numbers: false as soon as one side is \<^verbatim>\<open>NaN\<close>.\<close>

fun num_less :: "number \<Rightarrow> number \<Rightarrow> bool" where
  "num_less NaN _ = False"
| "num_less _ NaN = False"
| "num_less NegInfinity NegInfinity = False"
| "num_less NegInfinity _ = True"
| "num_less (Finite a) (Finite b) = (a < b)"
| "num_less (Finite a) Infinity = True"
| "num_less (Finite a) NegInfinity = False"
| "num_less Infinity _ = False"

text \<open>\<^verbatim>\<open>!x\<close> for a number \<^verbatim>\<open>x\<close>: true for zero and for \<^verbatim>\<open>NaN\<close> only.\<close>

definition falsy :: "number \<Rightarrow> bool" where
  "falsy x = (x = NaN \<or> x = Finite 0)"

section \<open>Graph model (graph.ts)\<close>

text \<open>
  \<^verbatim>\<open>GraphNode\<close> objects are compared by identity (\<^verbatim>\<open>===\<close>) and shared between the graph's
  node array, the adjacency records and the lookup table. An object is therefore a
  reference into a store; \<open>heap s ! r\<close> is the object at reference \<open>r\<close>, and a new object
  gets the next free reference. The program has one \<^verbatim>\<open>Graph\<close> instance; its private
  array \<^verbatim>\<open>graphNodes\<close> is the field \<open>graphNodes\<close> of the store.
\<close>

type_synonym ref = nat

record EdgeToNode =
  targetNode :: ref
  weight :: number

record GraphNode =
  name :: string
  edgesToNodes :: "EdgeToNode list"

record store =
  heap :: "GraphNode list"
  graphNodes :: "ref list"

text \<open>\<^verbatim>\<open>new Graph([])\<close> in a store without objects.\<close>

definition new_Graph :: store where
  "new_Graph = \<lparr>heap = [], graphNodes = []\<rparr>"

text \<open>\<^verbatim>\<open>graph.addGraphNode(new GraphNode(name, []))\<close>: allocate the node, push its reference.\<close>

definition addGraphNode :: "store \<Rightarrow> string \<Rightarrow> store" where
  "addGraphNode s nm =
     s\<lparr>heap := heap s @ [\<lparr>name = nm, edgesToNodes = []\<rparr>],
       graphNodes := graphNodes s @ [length (heap s)]\<rparr>"

text \<open>\<^verbatim>\<open>node.addAdjacentWeightedNode(edge)\<close> for the node at reference \<open>r\<close>.\<close>

definition addAdjacentWeightedNode :: "store \<Rightarrow> ref \<Rightarrow> EdgeToNode \<Rightarrow> store" where
  "addAdjacentWeightedNode s r e =
     s\<lparr>heap := (heap s)[r := (heap s ! r)\<lparr>edgesToNodes := edgesToNodes (heap s ! r) @ [e]\<rparr>]\<rparr>"

text \<open>\<^verbatim>\<open>graph.getGraphNodesList().find(graphNode => graphNode.getName() === nm)\<close>.\<close>

definition findByName :: "store \<Rightarrow> string \<Rightarrow> ref option" where
  "findByName s nm = List.find (\<lambda>r. name (heap s ! r) = nm) (graphNodes s)"

section \<open>Loader (parseGraphMl)\<close>

text \<open>
  Each \<^verbatim>\<open>throw new Error(...)\<close> of index.ts is one constructor, named for the failure the
  message describes; \<open>TypeError\<close> is the runtime's error for a property read on
  \<^verbatim>\<open>null\<close> or \<^verbatim>\<open>undefined\<close> (behind an \<^verbatim>\<open>as\<close> cast).
\<close>

datatype error =
    MissingGraphSection   \<comment> \<open>"There is no graph tag in the GraphML file."\<close>
  | InsufficientNodes     \<comment> \<open>"There must be at least two node tags in the GraphML file."\<close>
  | MissingEdges          \<comment> \<open>"There must be at least one edge tag in the GraphML file."\<close>
  | MalformedEdge         \<comment> \<open>"The edge tag has either no source or target attribute ..."\<close>
  | MissingWeightData     \<comment> \<open>"The current edge tag has no children tag named data ..."\<close>
  | InvalidWeight         \<comment> \<open>"The weight of the current edge is not a valid number."\<close>
  | UnknownEdgeEndpoint   \<comment> \<open>"The node specified in the edge tag is not present ..."\<close>
  | EmptyFrontier         \<comment> \<open>"The filtered lookup table does not contain any elements."\<close>
  | NodeNotInGraph        \<comment> \<open>"Either the start node or the target node is not represented in the given graph"\<close>
  | UnknownNode           \<comment> \<open>"The graph does not contain either the start node or the target node."\<close>
  | TypeError

text \<open>
  The parsed document, as far as \<^verbatim>\<open>parseGraphMl\<close> reads it. Reading the file and the
  XML parser are outside the repository, and so is the conversion \<^verbatim>\<open>Number(data.val)\<close>:
  an edge element carries the number that conversion yields, or \<open>None\<close> when it has no
  \<^verbatim>\<open>data\<close> child. An attribute that is absent is \<open>None\<close>.
\<close>

record XmlNode =
  attr_id :: string

record XmlEdge =
  attr_source :: "string option"
  attr_target :: "string option"
  data :: "number option"

record XmlGraph =
  nodeTags :: "XmlNode list"
  edgeTags :: "XmlEdge list"

record XmlDocument =
  graphTag :: "XmlGraph option"

text \<open>\<^verbatim>\<open>!s\<close> for an attribute: absent or the empty string.\<close>

definition no_attr :: "string option \<Rightarrow> bool" where
  "no_attr a = (a = None \<or> a = Some [])"

text \<open>The body of \<^verbatim>\<open>edges.forEach\<close>, for one edge element.\<close>

definition addEdge :: "store \<Rightarrow> XmlEdge \<Rightarrow> error + store" where
  "addEdge s edge =
     (if no_attr (attr_source edge) \<or> no_attr (attr_target edge) then Inl MalformedEdge
      else
        (case data edge of
           None \<Rightarrow> Inl MissingWeightData
         | Some edgeWeight \<Rightarrow>
             (if falsy edgeWeight then Inl InvalidWeight
              else
                (case findByName s (the (attr_source edge)) of
                   None \<Rightarrow> Inl UnknownEdgeEndpoint
                 | Some sourceGraphNode \<Rightarrow>
                     (case findByName s (the (attr_target edge)) of
                        None \<Rightarrow> Inl UnknownEdgeEndpoint
                      | Some targetGraphNode \<Rightarrow>
                          Inr (addAdjacentWeightedNode
                                 (addAdjacentWeightedNode s sourceGraphNode
                                    \<lparr>targetNode = targetGraphNode, weight = edgeWeight\<rparr>)
                                 targetGraphNode
                                 \<lparr>targetNode = sourceGraphNode, weight = edgeWeight\<rparr>))))))"

fun addEdges :: "store \<Rightarrow> XmlEdge list \<Rightarrow> error + store" where
  "addEdges s [] = Inr s"
| "addEdges s (edge # edges) =
     (case addEdge s edge of Inl e \<Rightarrow> Inl e | Inr s' \<Rightarrow> addEdges s' edges)"

definition addNodes :: "store \<Rightarrow> XmlNode list \<Rightarrow> store" where
  "addNodes s nodes = foldl (\<lambda>s' node. addGraphNode s' (attr_id node)) s nodes"

definition parseGraphMl :: "XmlDocument \<Rightarrow> error + store" where
  "parseGraphMl doc =
     (case graphTag doc of
        None \<Rightarrow> Inl MissingGraphSection
      | Some g \<Rightarrow>
          if length (nodeTags g) < 2 then Inl InsufficientNodes
          else let graph = addNodes new_Graph (nodeTags g) in
            if edgeTags g = [] then Inl MissingEdges
            else addEdges graph (edgeTags g))"

section \<open>Shortest-path engine (index.ts)\<close>

record LookupTableEntry =
  node :: ref
  shortestDistanceToTargetNode :: number
  previousNode :: "ref option"

definition initLookupTable :: "store \<Rightarrow> ref \<Rightarrow> LookupTableEntry list" where
  "initLookupTable s startNode =
     map (\<lambda>graphNode. \<lparr>node = graphNode,
            shortestDistanceToTargetNode = (if graphNode = startNode then Finite 0 else Infinity),
            previousNode = None\<rparr>)
         (graphNodes s)"

text \<open>
  The \<^verbatim>\<open>for\<close> loop of \<^verbatim>\<open>findNodeWithSmallestKnownDistance\<close>: the candidate is replaced
  only by an entry that is strictly smaller.
\<close>

fun smallest :: "LookupTableEntry \<Rightarrow> LookupTableEntry list \<Rightarrow> LookupTableEntry" where
  "smallest smallestTableEntry [] = smallestTableEntry"
| "smallest smallestTableEntry (e # es) =
     (if num_less (shortestDistanceToTargetNode e) (shortestDistanceToTargetNode smallestTableEntry)
      then smallest e es else smallest smallestTableEntry es)"

text \<open>
  The final \<^verbatim>\<open>unvisited.find(...) as GraphNode\<close> would yield \<^verbatim>\<open>undefined\<close> when nothing
  matches, and the caller's first use of it (\<^verbatim>\<open>graphNode.getEdgesToNodes()\<close>) would raise
  a TypeError.
\<close>

definition findNodeWithSmallestKnownDistance ::
  "LookupTableEntry list \<Rightarrow> ref list \<Rightarrow> error + ref" where
  "findNodeWithSmallestKnownDistance lookupTable unvisited =
     (let filteredLookupTable = filter (\<lambda>e. node e \<in> set unvisited) lookupTable in
      case filteredLookupTable of
        [] \<Rightarrow> Inl EmptyFrontier
      | e0 # _ \<Rightarrow>
          (case List.find (\<lambda>graphNode. graphNode = node (smallest e0 filteredLookupTable)) unvisited of
             None \<Rightarrow> Inl TypeError
           | Some graphNode \<Rightarrow> Inr graphNode))"

definition getTableEntryforNode :: "LookupTableEntry list \<Rightarrow> ref \<Rightarrow> LookupTableEntry option" where
  "getTableEntryforNode lookupTable graphNode = List.find (\<lambda>e. node e = graphNode) lookupTable"

text \<open>
  Assigning to the fields of the entry object that \<^verbatim>\<open>getTableEntryforNode\<close> returned:
  the first entry of the table for that node is replaced.
\<close>

fun setEntry :: "LookupTableEntry list \<Rightarrow> ref \<Rightarrow> ref \<Rightarrow> number \<Rightarrow> LookupTableEntry list" where
  "setEntry [] adjacent graphNode newDistance = []"
| "setEntry (e # es) adjacent graphNode newDistance =
     (if node e = adjacent
      then e\<lparr>previousNode := Some graphNode, shortestDistanceToTargetNode := newDistance\<rparr> # es
      else e # setEntry es adjacent graphNode newDistance)"

text \<open>
  The \<^verbatim>\<open>forEach\<close> of \<^verbatim>\<open>checkNeighboringNodes\<close>. \<^verbatim>\<open>nodeTableEntry\<close> is a reference to the
  entry object, so each iteration reads the distance that entry holds at that moment: the
  entry is looked up again in the current table. A \<^verbatim>\<open>null\<close> entry raises a TypeError at
  the first field read.
\<close>

fun relaxEdges :: "LookupTableEntry list \<Rightarrow> ref \<Rightarrow> EdgeToNode list \<Rightarrow> error + LookupTableEntry list" where
  "relaxEdges lookupTable graphNode [] = Inr lookupTable"
| "relaxEdges lookupTable graphNode (edgeToNode # rest) =
     (case getTableEntryforNode lookupTable graphNode of
        None \<Rightarrow> Inl TypeError
      | Some nodeTableEntry \<Rightarrow>
          (case getTableEntryforNode lookupTable (targetNode edgeToNode) of
             None \<Rightarrow> Inl TypeError
           | Some adjacentNodeTableEntry \<Rightarrow>
               let newDistance = num_add (shortestDistanceToTargetNode nodeTableEntry) (weight edgeToNode) in
               if num_less newDistance (shortestDistanceToTargetNode adjacentNodeTableEntry)
               then relaxEdges (setEntry lookupTable (targetNode edgeToNode) graphNode newDistance)
                      graphNode rest
               else relaxEdges lookupTable graphNode rest))"

definition checkNeighboringNodes ::
  "GraphNode list \<Rightarrow> LookupTableEntry list \<Rightarrow> ref \<Rightarrow> error + LookupTableEntry list" where
  "checkNeighboringNodes h lookupTable graphNode =
     relaxEdges lookupTable graphNode (edgesToNodes (h ! graphNode))"

text \<open>\<^verbatim>\<open>xs.indexOf(x)\<close>, and the array left by \<^verbatim>\<open>xs.splice(i, 1)\<close> (a negative \<open>i\<close> counts
  from the end).\<close>

fun indexOf :: "'a list \<Rightarrow> 'a \<Rightarrow> int" where
  "indexOf [] x = - 1"
| "indexOf (y # ys) x =
     (if y = x then 0 else (let i = indexOf ys x in if i < 0 then - 1 else i + 1))"

definition splice1 :: "'a list \<Rightarrow> int \<Rightarrow> 'a list" where
  "splice1 xs i =
     (let n = int (length xs);
          k = nat (if i < 0 then max (n + i) 0 else min i n)
      in take k xs @ drop (Suc k) xs)"

text \<open>
  The main loop of \<^verbatim>\<open>findShortestPathBetween\<close>. \<^verbatim>\<open>unvisited\<close> is the very array
  \<^verbatim>\<open>graphNodes\<close> of the graph (\<^verbatim>\<open>let unvisited = graphNodes\<close> copies the reference, and the
  comment there says that \<^verbatim>\<open>graphNodes\<close> will be modified), so the splice acts on the
  field \<open>graphNodes\<close> of the store. An exception leaves the store as it is at that moment.
\<close>

function mainLoop ::
  "nat \<Rightarrow> LookupTableEntry list \<Rightarrow> ref list \<Rightarrow> store \<Rightarrow> (error + LookupTableEntry list) \<times> store" where
  "mainLoop graphNodesLength lookupTable visited s =
     (if length visited < graphNodesLength then
        (case findNodeWithSmallestKnownDistance lookupTable (graphNodes s) of
           Inl e \<Rightarrow> (Inl e, s)
         | Inr nextNode \<Rightarrow>
             (case checkNeighboringNodes (heap s) lookupTable nextNode of
                Inl e \<Rightarrow> (Inl e, s)
              | Inr lookupTable' \<Rightarrow>
                  mainLoop graphNodesLength lookupTable' (visited @ [nextNode])
                    (s\<lparr>graphNodes := splice1 (graphNodes s) (indexOf (graphNodes s) nextNode)\<rparr>)))
      else (Inr lookupTable, s))"
  by pat_completeness auto
termination
  by (relation "measure (\<lambda>(n, lt, visited, s). n - length visited)") auto

declare mainLoop.simps [simp del]

text \<open>
  The rewind loop. \<open>nodeToCheck\<close> is \<open>None\<close> for \<^verbatim>\<open>null\<close>, which the cast
  \<^verbatim>\<open>previousNode as GraphNode\<close> lets through; \<^verbatim>\<open>null !== startNode\<close> holds, and
  \<^verbatim>\<open>nodeToCheck.getName()\<close> then raises a TypeError. The loop need not end: \<open>None\<close> as
  the result is a run that does not return.
\<close>

partial_function (option) rewind ::
  "GraphNode list \<Rightarrow> LookupTableEntry list \<Rightarrow> ref \<Rightarrow> ref option \<Rightarrow> string list
     \<Rightarrow> (error + string list) option" where
  "rewind h lookupTable startNode nodeToCheck pathNames =
     (if nodeToCheck \<noteq> Some startNode then
        (case nodeToCheck of
           None \<Rightarrow> Some (Inl TypeError)
         | Some n \<Rightarrow>
             (case getTableEntryforNode lookupTable n of
                None \<Rightarrow> Some (Inl TypeError)
              | Some previousNodeTableEntry \<Rightarrow>
                  rewind h lookupTable startNode (previousNode previousNodeTableEntry)
                    (pathNames @ [name (h ! n)])))
      else Some (Inr pathNames))"

declare rewind.simps [code]

record ShortestPath =
  nodeNames :: "string list"
  shortestDistance :: number

text \<open>
  A query is a pair of an outcome and the store it leaves, or \<open>None\<close> when it does not
  return.
\<close>

definition findShortestPathBetween ::
  "store \<Rightarrow> ref \<Rightarrow> ref \<Rightarrow> ((error + ShortestPath) \<times> store) option" where
  "findShortestPathBetween s startNode target =
     (if List.find (\<lambda>graphNode. graphNode = startNode) (graphNodes s) = None
         \<or> List.find (\<lambda>graphNode. graphNode = target) (graphNodes s) = None
      then Some (Inl NodeNotInGraph, s)
      else
        (case mainLoop (length (graphNodes s)) (initLookupTable s startNode) [] s of
           (Inl e, s') \<Rightarrow> Some (Inl e, s')
         | (Inr lookupTable, s') \<Rightarrow>
             (case rewind (heap s') lookupTable startNode (Some target) [] of
                None \<Rightarrow> None
              | Some (Inl e) \<Rightarrow> Some (Inl e, s')
              | Some (Inr pathNames) \<Rightarrow>
                  (case getTableEntryforNode lookupTable target of
                     None \<Rightarrow> Some (Inl TypeError, s')
                   | Some targetNodeTableEntry \<Rightarrow>
                       Some (Inr \<lparr>nodeNames = rev (pathNames @ [name (heap s' ! startNode)]),
                                  shortestDistance = shortestDistanceToTargetNode targetNodeTableEntry\<rparr>,
                             s')))))"

definition dijkstra ::
  "store \<Rightarrow> string \<Rightarrow> string \<Rightarrow> ((error + ShortestPath) \<times> store) option" where
  "dijkstra s startNodeName targetNodeName =
     (case findByName s startNodeName of
        None \<Rightarrow> Some (Inl UnknownNode, s)
      | Some startNode \<Rightarrow>
          (case findByName s targetNodeName of
             None \<Rightarrow> Some (Inl UnknownNode, s)
           | Some target \<Rightarrow> findShortestPathBetween s startNode target))"

text \<open>
  The script at the end of index.ts: load the document, run one query, print the outcome.
  The document and the two names are parameters here.
\<close>

definition main :: "XmlDocument \<Rightarrow> string \<Rightarrow> string \<Rightarrow> (error + ShortestPath) option" where
  "main doc startNodeName targetNodeName =
     (case parseGraphMl doc of
        Inl e \<Rightarrow> Some (Inl e)
      | Inr graph \<Rightarrow> map_option fst (dijkstra graph startNodeName targetNodeName))"

section \<open>Example documents\<close>

definition mkNode :: "string \<Rightarrow> XmlNode" where
  "mkNode n = \<lparr>attr_id = n\<rparr>"

definition mkEdge :: "string \<Rightarrow> string \<Rightarrow> number \<Rightarrow> XmlEdge" where
  "mkEdge a b w = \<lparr>attr_source = Some a, attr_target = Some b, data = Some w\<rparr>"

definition mkDoc :: "string list \<Rightarrow> XmlEdge list \<Rightarrow> XmlDocument" where
  "mkDoc ns es = \<lparr>graphTag = Some \<lparr>nodeTags = map mkNode ns, edgeTags = es\<rparr>\<rparr>"

text \<open>Scenario 1 of the specification.\<close>

definition doc_scenario1 :: XmlDocument where
  "doc_scenario1 = mkDoc [''A'', ''B'', ''C'', ''D'', ''E'']
     [mkEdge ''A'' ''B'' (Finite 4), mkEdge ''A'' ''C'' (Finite 2), mkEdge ''C'' ''B'' (Finite 1),
      mkEdge ''B'' ''D'' (Finite 5), mkEdge ''C'' ''D'' (Finite 8), mkEdge ''D'' ''E'' (Finite 3),
      mkEdge ''B'' ''E'' (Finite 10)]"

text \<open>Scenario 3 of the specification: node C has no edge.\<close>

definition doc_isolated :: XmlDocument where
  "doc_isolated = mkDoc [''A'', ''B'', ''C''] [mkEdge ''A'' ''B'' (Finite 7)]"

text \<open>Scenario 2 of the specification, and the store that loading it yields.\<close>

definition mkGraphNode :: "string \<Rightarrow> (ref \<times> number) list \<Rightarrow> GraphNode" where
  "mkGraphNode n es = \<lparr>name = n, edgesToNodes = map (\<lambda>(t, w). \<lparr>targetNode = t, weight = w\<rparr>) es\<rparr>"

definition doc_two :: XmlDocument where
  "doc_two = mkDoc [''A'', ''B''] [mkEdge ''A'' ''B'' (Finite 7)]"

definition graph_two :: store where
  "graph_two = \<lparr>heap = [mkGraphNode ''A'' [(1, Finite 7)], mkGraphNode ''B'' [(0, Finite 7)]],
                  graphNodes = [0, 1]\<rparr>"


text \<open>Weights that are numbers, but not positive finite ones.\<close>

definition doc_negative :: XmlDocument where
  "doc_negative = mkDoc [''A'', ''B''] [mkEdge ''A'' ''B'' (Finite (- 1))]"

definition graph_negative :: store where
  "graph_negative = \<lparr>heap = [mkGraphNode ''A'' [(1, Finite (- 1))], mkGraphNode ''B'' [(0, Finite (- 1))]],
                       graphNodes = [0, 1]\<rparr>"

definition doc_infinite :: XmlDocument where
  "doc_infinite = mkDoc [''A'', ''B''] [mkEdge ''A'' ''B'' Infinity]"

definition graph_infinite :: store where
  "graph_infinite = \<lparr>heap = [mkGraphNode ''A'' [(1, Infinity)], mkGraphNode ''B'' [(0, Infinity)]],
                       graphNodes = [0, 1]\<rparr>"

definition doc_zero :: XmlDocument where
  "doc_zero = mkDoc [''A'', ''B''] [mkEdge ''A'' ''B'' (Finite 7), mkEdge ''B'' ''A'' (Finite 0)]"

text \<open>Two node elements with the same identifier.\<close>

definition doc_duplicate :: XmlDocument where
  "doc_duplicate = mkDoc [''A'', ''A'', ''B''] [mkEdge ''A'' ''B'' (Finite 7)]"

definition graph_duplicate :: store where
  "graph_duplicate =
     \<lparr>heap = [mkGraphNode ''A'' [(2, Finite 7)], mkGraphNode ''A'' [], mkGraphNode ''B'' [(0, Finite 7)]],
      graphNodes = [0, 1, 2]\<rparr>"

text \<open>A chain of three nodes.\<close>

definition doc_chain :: XmlDocument where
  "doc_chain = mkDoc [''A'', ''B'', ''C''] [mkEdge ''A'' ''B'' (Finite 1), mkEdge ''B'' ''C'' (Finite 2)]"

definition graph_chain :: store where
  "graph_chain =
     \<lparr>heap = [mkGraphNode ''A'' [(1, Finite 1)], mkGraphNode ''B'' [(0, Finite 1), (2, Finite 2)],
              mkGraphNode ''C'' [(1, Finite 2)]],
      graphNodes = [0, 1, 2]\<rparr>"

text \<open>A negative weight on a chain of three nodes.\<close>

definition doc_negative_chain :: XmlDocument where
  "doc_negative_chain =
     mkDoc [''A'', ''B'', ''C''] [mkEdge ''A'' ''B'' (Finite (- 2)), mkEdge ''B'' ''C'' (Finite 3)]"

definition graph_negative_chain :: store where
  "graph_negative_chain =
     \<lparr>heap = [mkGraphNode ''A'' [(1, Finite (- 2))],
              mkGraphNode ''B'' [(0, Finite (- 2)), (2, Finite 3)],
              mkGraphNode ''C'' [(1, Finite 3)]],
      graphNodes = [0, 1, 2]\<rparr>"



text \<open>
  Two neighbours of A at the same distance, the later one in the order of the nodes relaxed
  first, and the table after the first iteration of the query from A.
\<close>

definition doc_tie :: XmlDocument where
  "doc_tie =
     mkDoc [''A'', ''B'', ''C'', ''D'']
       [mkEdge ''A'' ''C'' (Finite 1), mkEdge ''A'' ''B'' (Finite 1), mkEdge ''C'' ''D'' (Finite 1)]"

definition graph_tie :: store where
  "graph_tie =
     \<lparr>heap = [mkGraphNode ''A'' [(2, Finite 1), (1, Finite 1)],
              mkGraphNode ''B'' [(0, Finite 1)],
              mkGraphNode ''C'' [(0, Finite 1), (3, Finite 1)],
              mkGraphNode ''D'' [(2, Finite 1)]],
      graphNodes = [0, 1, 2, 3]\<rparr>"

definition table_tie :: "LookupTableEntry list" where
  "table_tie =
     [\<lparr>node = 0, shortestDistanceToTargetNode = Finite 0, previousNode = None\<rparr>,
      \<lparr>node = 1, shortestDistanceToTargetNode = Finite 1, previousNode = Some 0\<rparr>,
      \<lparr>node = 2, shortestDistanceToTargetNode = Finite 1, previousNode = Some 0\<rparr>,
      \<lparr>node = 3, shortestDistanceToTargetNode = Infinity, previousNode = None\<rparr>]"

section \<open>Notions used in the properties\<close>

text \<open>The adjacency records of a heap as triples of source, target and weight.\<close>

definition edgeSet :: "GraphNode list \<Rightarrow> (ref \<times> ref \<times> number) set" where
  "edgeSet h = {(r, targetNode e, weight e) | r e. r < length h \<and> e \<in> set (edgesToNodes (h ! r))}"

text \<open>
  What holds of the store while \<^verbatim>\<open>parseGraphMl\<close> adds the edges \<open>es\<close> to the nodes made from
  \<open>ns\<close>: the node array and the names are those of the node elements, every adjacency
  record points to a node, has a weight that passed the check and the weight of some edge
  element, and has its reverse record.
\<close>

definition loading :: "XmlNode list \<Rightarrow> XmlEdge list \<Rightarrow> store \<Rightarrow> bool" where
  "loading ns es s \<longleftrightarrow>
     graphNodes s = [0..<length ns] \<and> map name (heap s) = map attr_id ns
     \<and> (\<forall>(a, b, w)\<in>edgeSet (heap s).
           a < length ns \<and> b < length ns \<and> \<not> falsy w \<and> (b, a, w) \<in> edgeSet (heap s)
           \<and> (\<exists>x\<in>set es. data x = Some w))"

text \<open>
  The state of the main loop: the lookup table, \<^verbatim>\<open>visited\<close> and \<^verbatim>\<open>unvisited\<close> (the node array
  of the graph). \<open>loopBody\<close> is one run of the body of the \<^verbatim>\<open>while\<close> loop of
  \<^verbatim>\<open>findShortestPathBetween\<close>, and \<open>iterations h n k c\<close> is the state after \<open>k\<close> iterations from
  \<open>c\<close>, each entered with the loop condition \<^verbatim>\<open>visited.length < graphNodesLength\<close> true.
\<close>

type_synonym loop_state = "LookupTableEntry list \<times> ref list \<times> ref list"

definition loopBody :: "GraphNode list \<Rightarrow> loop_state \<Rightarrow> error + loop_state" where
  "loopBody h c =
     (case c of (lookupTable, visited, unvisited) \<Rightarrow>
        (case findNodeWithSmallestKnownDistance lookupTable unvisited of
           Inl e \<Rightarrow> Inl e
         | Inr nextNode \<Rightarrow>
             (case checkNeighboringNodes h lookupTable nextNode of
                Inl e \<Rightarrow> Inl e
              | Inr lookupTable' \<Rightarrow>
                  Inr (lookupTable', visited @ [nextNode],
                       splice1 unvisited (indexOf unvisited nextNode)))))"

fun iterations :: "GraphNode list \<Rightarrow> nat \<Rightarrow> nat \<Rightarrow> loop_state \<Rightarrow> loop_state option" where
  "iterations h n 0 c = Some c"
| "iterations h n (Suc k) (lookupTable, visited, unvisited) =
     (if length visited < n then
        (case loopBody h (lookupTable, visited, unvisited) of
           Inl e \<Rightarrow> None
         | Inr c' \<Rightarrow> iterations h n k c')
      else None)"

text \<open>The distance and the predecessor that the table holds for a node.\<close>

definition distanceOf :: "LookupTableEntry list \<Rightarrow> ref \<Rightarrow> number" where
  "distanceOf lookupTable r =
     (case getTableEntryforNode lookupTable r of
        None \<Rightarrow> Infinity
      | Some e \<Rightarrow> shortestDistanceToTargetNode e)"

definition previousOf :: "LookupTableEntry list \<Rightarrow> ref \<Rightarrow> ref option" where
  "previousOf lookupTable r =
     (case getTableEntryforNode lookupTable r of
        None \<Rightarrow> None
      | Some e \<Rightarrow> previousNode e)"

text \<open>The body of the \<^verbatim>\<open>forEach\<close> of \<^verbatim>\<open>checkNeighboringNodes\<close> when both entries exist.\<close>

definition relax1 :: "ref \<Rightarrow> LookupTableEntry list \<Rightarrow> EdgeToNode \<Rightarrow> LookupTableEntry list" where
  "relax1 u lookupTable e =
     (let newDistance = num_add (distanceOf lookupTable u) (weight e) in
      if num_less newDistance (distanceOf lookupTable (targetNode e))
      then setEntry lookupTable (targetNode e) u newDistance
      else lookupTable)"

text \<open>
  The node array \<open>G\<close> of a graph has no node twice and every adjacency record of its nodes
  points into it.
\<close>

definition wf_edges :: "GraphNode list \<Rightarrow> ref list \<Rightarrow> bool" where
  "wf_edges h G \<longleftrightarrow> distinct G \<and> (\<forall>r\<in>set G. \<forall>e\<in>set (edgesToNodes (h ! r)). targetNode e \<in> set G)"

text \<open>
  The bookkeeping of the main loop for a graph whose node array was \<open>G\<close> when the query began:
  the table has one entry per node, in the order of \<open>G\<close>, and the unvisited array is \<open>G\<close>
  without the visited nodes.
\<close>

definition loop_inv :: "ref list \<Rightarrow> loop_state \<Rightarrow> bool" where
  "loop_inv G c =
     (case c of (lt, V, U) \<Rightarrow>
        map node lt = G \<and> distinct V \<and> set V \<subseteq> set G \<and> U = filter (\<lambda>r. r \<notin> set V) G)"

text \<open>
  A walk: the nodes \<open>vs\<close>, each joined to the next by an adjacency record of the weight listed
  in \<open>ws\<close>. The weight of the walk is \<open>foldl num_add (Finite 0) ws\<close>, the sum taken from the
  first edge on, as the table accumulates it.
\<close>

fun joined :: "GraphNode list \<Rightarrow> ref list \<Rightarrow> number list \<Rightarrow> bool" where
  "joined h [] ws = False"
| "joined h [v] ws = (ws = [])"
| "joined h (u # v # vs) [] = False"
| "joined h (u # v # vs) (w # ws) =
     ((\<exists>e\<in>set (edgesToNodes (h ! u)). targetNode e = v \<and> weight e = w) \<and> joined h (v # vs) ws)"

text \<open>A number that is not \<^verbatim>\<open>NaN\<close> and not below zero; a graph whose weights are all above zero.\<close>

definition nonneg :: "number \<Rightarrow> bool" where
  "nonneg d \<longleftrightarrow> d \<noteq> NaN \<and> \<not> num_less d (Finite 0)"

definition positive_weights :: "GraphNode list \<Rightarrow> ref list \<Rightarrow> bool" where
  "positive_weights h G \<longleftrightarrow>
     (\<forall>r\<in>set G. \<forall>e\<in>set (edgesToNodes (h ! r)). num_less (Finite 0) (weight e))"

text \<open>
  The invariant of the main loop on a graph with positive weights, for the set \<open>S\<close> of visited
  nodes: no distance is negative; no node outside \<open>S\<close> is nearer than one in \<open>S\<close>; every edge
  that leaves \<open>S\<close> has been relaxed; a predecessor is a visited node, joined to its successor by
  an edge whose weight is the difference of their distances; the start keeps distance 0 and no
  predecessor, and every other node with a finite distance has a predecessor.
\<close>

definition nonneg_table :: "LookupTableEntry list \<Rightarrow> bool" where
  "nonneg_table lt \<longleftrightarrow> (\<forall>r. nonneg (distanceOf lt r))"

definition ordered :: "ref set \<Rightarrow> LookupTableEntry list \<Rightarrow> bool" where
  "ordered S lt \<longleftrightarrow> (\<forall>x\<in>S. \<forall>y. y \<notin> S \<longrightarrow> \<not> num_less (distanceOf lt y) (distanceOf lt x))"

definition relaxed :: "GraphNode list \<Rightarrow> ref set \<Rightarrow> LookupTableEntry list \<Rightarrow> bool" where
  "relaxed h S lt \<longleftrightarrow>
     (\<forall>x\<in>S. \<forall>e\<in>set (edgesToNodes (h ! x)).
        \<not> num_less (num_add (distanceOf lt x) (weight e)) (distanceOf lt (targetNode e)))"

definition pred_ok :: "GraphNode list \<Rightarrow> ref set \<Rightarrow> LookupTableEntry list \<Rightarrow> bool" where
  "pred_ok h S lt \<longleftrightarrow>
     (\<forall>v u. previousOf lt v = Some u \<longrightarrow>
        u \<in> S \<and> distanceOf lt v \<noteq> Infinity
        \<and> (\<exists>e\<in>set (edgesToNodes (h ! u)).
              targetNode e = v \<and> distanceOf lt v = num_add (distanceOf lt u) (weight e)))"

definition start_ok :: "ref \<Rightarrow> LookupTableEntry list \<Rightarrow> bool" where
  "start_ok start lt \<longleftrightarrow>
     distanceOf lt start = Finite 0 \<and> previousOf lt start = None
     \<and> (\<forall>v. v \<noteq> start \<and> distanceOf lt v \<noteq> Infinity \<longrightarrow> previousOf lt v \<noteq> None)"

definition dijkstra_inv :: "GraphNode list \<Rightarrow> ref \<Rightarrow> ref set \<Rightarrow> LookupTableEntry list \<Rightarrow> bool" where
  "dijkstra_inv h start S lt \<longleftrightarrow>
     nonneg_table lt \<and> ordered S lt \<and> relaxed h S lt \<and> pred_ok h S lt \<and> start_ok start lt"

text \<open>The same while the edges of the selected node \<open>u\<close> are relaxed.\<close>

definition relax_inv :: "GraphNode list \<Rightarrow> ref \<Rightarrow> ref set \<Rightarrow> ref \<Rightarrow> LookupTableEntry list \<Rightarrow> bool" where
  "relax_inv h start S u lt \<longleftrightarrow>
     nonneg_table lt \<and> ordered S lt
     \<and> (\<forall>y. y \<notin> S \<longrightarrow> \<not> num_less (distanceOf lt y) (distanceOf lt u))
     \<and> relaxed h S lt \<and> pred_ok h (insert u S) lt \<and> start_ok start lt"









section \<open>Properties\<close>

subsection \<open>Scenario 1\<close>

text \<open>
  C8: on the graph with nodes A, B, C, D, E and the edges A-B (4), A-C (2), C-B (1),
  B-D (5), C-D (8), D-E (3), B-E (10), the query from A to E returns the names
  A, C, B, D, E and the distance 11.
\<close>

theorem scenario1_A_to_E:
  "main doc_scenario1 ''A'' ''E'' =
     Some (Inr \<lparr>nodeNames = [''A'', ''C'', ''B'', ''D'', ''E''], shortestDistance = Finite 11\<rparr>)"
  by code_simp

subsection \<open>An unreachable target\<close>

text \<open>
  C2: a target whose distance is still infinite after the main loop should make the query
  fail with an error of its own. On the graph A-B (7) with the isolated node C, the query
  from A to C ends in the TypeError of reading \<^verbatim>\<open>getName\<close> on \<^verbatim>\<open>null\<close> in the rewind loop;
  none of the errors that index.ts throws itself is raised.
\<close>

theorem unreachable_target_TypeError:
  "main doc_isolated ''A'' ''C'' = Some (Inl TypeError)"
  by code_simp

subsection \<open>The loader\<close>

lemma findByName_Some:
  "findByName s nm = Some r \<Longrightarrow> r \<in> set (graphNodes s) \<and> name (heap s ! r) = nm"
  by (auto simp: findByName_def find_Some_iff)

lemma findByName_None:
  "findByName s nm = None \<longleftrightarrow> nm \<notin> set (map (\<lambda>r. name (heap s ! r)) (graphNodes s))"
  by (auto simp: findByName_def find_None_iff)

lemma addAdjacent_graphNodes [simp]:
  "graphNodes (addAdjacentWeightedNode s r e) = graphNodes s"
  by (simp add: addAdjacentWeightedNode_def)

lemma addAdjacent_length [simp]:
  "length (heap (addAdjacentWeightedNode s r e)) = length (heap s)"
  by (simp add: addAdjacentWeightedNode_def)

lemma addAdjacent_names [simp]:
  "map name (heap (addAdjacentWeightedNode s r e)) = map name (heap s)"
proof (cases "r < length (heap s)")
  case True
  then show ?thesis
    by (simp add: addAdjacentWeightedNode_def map_update list_update_same_conv)
next
  case False
  then show ?thesis by (simp add: addAdjacentWeightedNode_def list_update_beyond)
qed

lemma edgeSet_addAdjacent:
  assumes "r < length (heap s)"
  shows "edgeSet (heap (addAdjacentWeightedNode s r e)) = insert (r, targetNode e, weight e) (edgeSet (heap s))"
  using assms
  by (auto simp: edgeSet_def addAdjacentWeightedNode_def nth_list_update split: if_splits)

lemma addEdge_Inr:
  assumes "addEdge s x = Inr s'" and "\<forall>r\<in>set (graphNodes s). r < length (heap s)"
  shows "graphNodes s' = graphNodes s \<and> length (heap s') = length (heap s)
       \<and> map name (heap s') = map name (heap s)
       \<and> (\<exists>a b w. a \<in> set (graphNodes s) \<and> b \<in> set (graphNodes s) \<and> data x = Some w \<and> \<not> falsy w
             \<and> edgeSet (heap s') = insert (b, a, w) (insert (a, b, w) (edgeSet (heap s))))"
proof -
  from assms(1) obtain w a b where w: "data x = Some w" "\<not> falsy w"
    and a: "findByName s (the (attr_source x)) = Some a"
    and b: "findByName s (the (attr_target x)) = Some b"
    and s': "s' = addAdjacentWeightedNode
                   (addAdjacentWeightedNode s a \<lparr>targetNode = b, weight = w\<rparr>) b
                   \<lparr>targetNode = a, weight = w\<rparr>"
    by (auto simp: addEdge_def split: if_splits option.splits)
  from a b have in_g: "a \<in> set (graphNodes s)" "b \<in> set (graphNodes s)"
    by (auto dest: findByName_Some)
  with assms(2) have lt: "a < length (heap s)" "b < length (heap s)" by auto
  have "edgeSet (heap s') = insert (b, a, w) (insert (a, b, w) (edgeSet (heap s)))"
    using lt by (simp add: s' edgeSet_addAdjacent)
  with w in_g show ?thesis by (auto simp: s')
qed

lemma addNodes_Nil [simp]: "addNodes s [] = s"
  by (simp add: addNodes_def)

lemma addNodes_Cons [simp]: "addNodes s (n # ns) = addNodes (addGraphNode s (attr_id n)) ns"
  by (simp add: addNodes_def)

lemma addNodes_heap:
  "heap (addNodes s ns) = heap s @ map (\<lambda>n. \<lparr>name = attr_id n, edgesToNodes = []\<rparr>) ns"
  by (induction ns arbitrary: s) (simp_all add: addGraphNode_def)

lemma addNodes_graphNodes:
  "graphNodes (addNodes s ns) = graphNodes s @ [length (heap s)..<length (heap s) + length ns]"
proof (induction ns arbitrary: s)
  case Nil
  then show ?case by simp
next
  case (Cons n ns)
  have "graphNodes (addNodes s (n # ns))
      = graphNodes s @ [length (heap s)] @ [Suc (length (heap s))..<Suc (length (heap s)) + length ns]"
    by (simp add: Cons.IH del: upt_Suc) (simp add: addGraphNode_def del: upt_Suc)
  also have "[length (heap s)] @ [Suc (length (heap s))..<Suc (length (heap s)) + length ns]
      = [length (heap s)..<length (heap s) + length (n # ns)]"
    by (simp add: upt_conv_Cons del: upt_Suc)
  finally show ?case .
qed

lemma loading_length: "loading ns es s \<Longrightarrow> length (heap s) = length ns"
  by (metis loading_def length_map)

lemma loading_init: "loading ns [] (addNodes new_Graph ns)"
  by (auto simp: loading_def addNodes_heap addNodes_graphNodes new_Graph_def edgeSet_def comp_def)

lemma loading_addEdge:
  assumes "loading ns es s" and "addEdge s x = Inr s'"
  shows "loading ns (es @ [x]) s'"
proof -
  have len: "length (heap s) = length ns" using assms(1) by (rule loading_length)
  have g: "graphNodes s = [0..<length ns]" using assms(1) by (simp add: loading_def)
  then have "\<forall>r\<in>set (graphNodes s). r < length (heap s)" by (simp add: len)
  from addEdge_Inr [OF assms(2) this] obtain a b w where
    keep: "graphNodes s' = graphNodes s" "map name (heap s') = map name (heap s)"
    and ab: "a \<in> set (graphNodes s)" "b \<in> set (graphNodes s)"
    and w: "data x = Some w" "\<not> falsy w"
    and E: "edgeSet (heap s') = insert (b, a, w) (insert (a, b, w) (edgeSet (heap s)))"
    by blast
  from ab g have "a < length ns" "b < length ns" by simp_all
  with assms(1) keep w show ?thesis
    unfolding loading_def E by fastforce
qed

lemma loading_addEdges:
  assumes "loading ns es s" and "addEdges s xs = Inr s'"
  shows "loading ns (es @ xs) s'"
  using assms
proof (induction xs arbitrary: s es)
  case Nil
  then show ?case by simp
next
  case (Cons x xs)
  from Cons.prems(2) obtain s1 where s1: "addEdge s x = Inr s1" and rest: "addEdges s1 xs = Inr s'"
    by (auto split: sum.splits)
  from Cons.IH [OF loading_addEdge [OF Cons.prems(1) s1] rest] show ?case by simp
qed

lemma parseGraphMl_Inr:
  assumes "parseGraphMl doc = Inr s"
  shows "\<exists>g. graphTag doc = Some g \<and> 2 \<le> length (nodeTags g) \<and> edgeTags g \<noteq> []
           \<and> addEdges (addNodes new_Graph (nodeTags g)) (edgeTags g) = Inr s
           \<and> loading (nodeTags g) (edgeTags g) s"
proof -
  from assms obtain g where g: "graphTag doc = Some g" "2 \<le> length (nodeTags g)" "edgeTags g \<noteq> []"
    and s: "addEdges (addNodes new_Graph (nodeTags g)) (edgeTags g) = Inr s"
    by (auto simp: parseGraphMl_def Let_def split: option.splits if_splits)
  from loading_addEdges [OF loading_init s] g s show ?thesis by simp
qed

lemma addEdges_append:
  "addEdges s (xs @ ys) = (case addEdges s xs of Inl e \<Rightarrow> Inl e | Inr s1 \<Rightarrow> addEdges s1 ys)"
  by (induction xs arbitrary: s) (auto split: sum.splits)

lemma addEdges_Inr_data:
  "addEdges s xs = Inr s' \<Longrightarrow> x \<in> set xs \<Longrightarrow> \<exists>w. data x = Some w \<and> \<not> falsy w"
proof (induction xs arbitrary: s)
  case Nil
  then show ?case by simp
next
  case (Cons y ys)
  from Cons.prems(1) obtain s1 where s1: "addEdge s y = Inr s1" and rest: "addEdges s1 ys = Inr s'"
    by (auto split: sum.splits)
  show ?case
  proof (cases "x = y")
    case True
    with s1 show ?thesis
      by (auto simp: addEdge_def split: if_splits option.splits)
  next
    case False
    with Cons.prems(2) Cons.IH [OF rest] show ?thesis by simp
  qed
qed

lemma loaded_edge:
  assumes "parseGraphMl doc = Inr s" and "r \<in> set (graphNodes s)" and "e \<in> set (edgesToNodes (heap s ! r))"
  shows "\<exists>g. graphTag doc = Some g \<and> loading (nodeTags g) (edgeTags g) s
           \<and> (r, targetNode e, weight e) \<in> edgeSet (heap s)"
proof -
  from parseGraphMl_Inr [OF assms(1)] obtain g where g: "graphTag doc = Some g"
    and l: "loading (nodeTags g) (edgeTags g) s" by blast
  from l assms(2) have "r < length (heap s)"
    by (simp add: loading_length) (simp add: loading_def)
  with assms(3) have "(r, targetNode e, weight e) \<in> edgeSet (heap s)"
    by (auto simp: edgeSet_def)
  with g l show ?thesis by blast
qed

lemma loaded_weight_stored:
  assumes a: "parseGraphMl doc = Inr s" "r \<in> set (graphNodes s)" "e \<in> set (edgesToNodes (heap s ! r))"
  shows "weight e \<noteq> NaN \<and> weight e \<noteq> Finite 0
          \<and> (\<exists>g x. graphTag doc = Some g \<and> x \<in> set (edgeTags g) \<and> data x = Some (weight e))"
proof -
  from loaded_edge [OF a] obtain g where g: "graphTag doc = Some g"
    and l: "loading (nodeTags g) (edgeTags g) s"
    and e: "(r, targetNode e, weight e) \<in> edgeSet (heap s)" by blast
  from l e have "\<not> falsy (weight e)" "\<exists>x\<in>set (edgeTags g). data x = Some (weight e)"
    unfolding loading_def by blast+
  with g show ?thesis
    by (auto simp: falsy_def)
qed

lemma falsy_weight_fails:
  assumes "graphTag doc = Some g" "x \<in> set (edgeTags g)" "data x = Some w" "falsy w"
  shows "\<exists>err. parseGraphMl doc = Inl err"
proof (cases "parseGraphMl doc")
  case (Inl err)
  then show ?thesis by blast
next
  case (Inr s')
  from parseGraphMl_Inr [OF Inr] assms(1)
  have "addEdges (addNodes new_Graph (nodeTags g)) (edgeTags g) = Inr s'" by auto
  from addEdges_Inr_data [OF this assms(2)] assms(3,4) show ?thesis by simp
qed

lemma falsy_weight_InvalidWeight:
  assumes "graphTag doc = Some g" "2 \<le> length (nodeTags g)" "edgeTags g = xs @ x # ys"
    and "addEdges (addNodes new_Graph (nodeTags g)) xs = Inr s1"
    and "\<not> no_attr (attr_source x)" "\<not> no_attr (attr_target x)"
    and "data x = Some w" "falsy w"
  shows "parseGraphMl doc = Inl InvalidWeight"
proof -
  from assms(5-8) have "addEdge s1 x = Inl InvalidWeight"
    by (simp add: addEdge_def)
  with assms(1-4) show ?thesis
    by (simp add: parseGraphMl_def addEdges_append)
qed

subsection \<open>Weights of a loaded graph\<close>

text \<open>
  C3, as the specification has it, does not hold: the check \<^verbatim>\<open>!edgeWeight\<close> rejects zero and
  \<^verbatim>\<open>NaN\<close> only. A negative weight and an infinite weight are loaded and stored.
\<close>

theorem negative_and_infinite_weights_load:
  "parseGraphMl doc_negative = Inr graph_negative
   \<and> parseGraphMl doc_infinite = Inr graph_infinite
   \<and> map weight (edgesToNodes (heap graph_negative ! 0)) = [Finite (- 1)]
   \<and> map weight (edgesToNodes (heap graph_infinite ! 0)) = [Infinity]"
proof -
  have 1: "parseGraphMl doc_negative = Inr graph_negative" by code_simp
  have 2: "parseGraphMl doc_infinite = Inr graph_infinite" by code_simp
  have 3: "map weight (edgesToNodes (heap graph_negative ! 0)) = [Finite (- 1)]" by code_simp
  have 4: "map weight (edgesToNodes (heap graph_infinite ! 0)) = [Infinity]" by code_simp
  from 1 2 3 4 show ?thesis by (intro conjI)
qed

text \<open>
  C3 (amended): every weight stored in a loaded graph is the number of some edge element
  and is neither \<^verbatim>\<open>NaN\<close> nor zero; a document with an edge element whose number is \<^verbatim>\<open>NaN\<close>
  or zero does not load, and the failure is InvalidWeight when the edge elements before it
  were added and the element has both attributes.
\<close>

theorem loaded_weights:
  "(parseGraphMl doc = Inr s \<longrightarrow>
      (\<forall>r\<in>set (graphNodes s). \<forall>e\<in>set (edgesToNodes (heap s ! r)).
          weight e \<noteq> NaN \<and> weight e \<noteq> Finite 0
          \<and> (\<exists>g x. graphTag doc = Some g \<and> x \<in> set (edgeTags g) \<and> data x = Some (weight e))))
   \<and> (graphTag doc = Some g \<and> x \<in> set (edgeTags g) \<and> data x = Some w \<and> (w = NaN \<or> w = Finite 0)
        \<longrightarrow> (\<exists>err. parseGraphMl doc = Inl err))
   \<and> (graphTag doc = Some g \<and> 2 \<le> length (nodeTags g) \<and> edgeTags g = xs @ x # ys
        \<and> addEdges (addNodes new_Graph (nodeTags g)) xs = Inr s1
        \<and> \<not> no_attr (attr_source x) \<and> \<not> no_attr (attr_target x)
        \<and> data x = Some w \<and> (w = NaN \<or> w = Finite 0)
        \<longrightarrow> parseGraphMl doc = Inl InvalidWeight)"
proof -
  have 1: "parseGraphMl doc = Inr s \<longrightarrow>
      (\<forall>r\<in>set (graphNodes s). \<forall>e\<in>set (edgesToNodes (heap s ! r)).
          weight e \<noteq> NaN \<and> weight e \<noteq> Finite 0
          \<and> (\<exists>g x. graphTag doc = Some g \<and> x \<in> set (edgeTags g) \<and> data x = Some (weight e)))"
    using loaded_weight_stored [of doc s] by blast
  have 2: "graphTag doc = Some g \<and> x \<in> set (edgeTags g) \<and> data x = Some w \<and> (w = NaN \<or> w = Finite 0)
        \<longrightarrow> (\<exists>err. parseGraphMl doc = Inl err)"
    using falsy_weight_fails [of doc g x w] unfolding falsy_def by blast
  have 3: "graphTag doc = Some g \<and> 2 \<le> length (nodeTags g) \<and> edgeTags g = xs @ x # ys
        \<and> addEdges (addNodes new_Graph (nodeTags g)) xs = Inr s1
        \<and> \<not> no_attr (attr_source x) \<and> \<not> no_attr (attr_target x)
        \<and> data x = Some w \<and> (w = NaN \<or> w = Finite 0)
        \<longrightarrow> parseGraphMl doc = Inl InvalidWeight"
    using falsy_weight_InvalidWeight [of doc g xs x ys s1 w] unfolding falsy_def by blast
  from 1 2 3 show ?thesis by (intro conjI)
qed

text \<open>The three parts of \<open>loaded_weights\<close> at the documents of scenario 2 and \<open>doc_zero\<close>.\<close>

theorem loaded_weights_witness:
  "parseGraphMl doc_two = Inr graph_two
   \<and> weight (hd (edgesToNodes (heap graph_two ! 0))) = Finite 7
   \<and> parseGraphMl doc_zero = Inl InvalidWeight"
proof -
  have l: "parseGraphMl doc_two = Inr graph_two" by code_simp
  have w: "weight (hd (edgesToNodes (heap graph_two ! 0))) = Finite 7" by code_simp
  have g: "graphTag doc_zero = Some \<lparr>nodeTags = [mkNode ''A'', mkNode ''B''],
              edgeTags = [mkEdge ''A'' ''B'' (Finite 7)] @ mkEdge ''B'' ''A'' (Finite 0) # []\<rparr>"
    by (simp add: doc_zero_def mkDoc_def)
  have p: "addEdges (addNodes new_Graph [mkNode ''A'', mkNode ''B'']) [mkEdge ''A'' ''B'' (Finite 7)] = Inr graph_two"
    by code_simp
  have "parseGraphMl doc_zero = Inl InvalidWeight"
    using loaded_weights [of doc_zero graph_two "\<lparr>nodeTags = [mkNode ''A'', mkNode ''B''],
              edgeTags = [mkEdge ''A'' ''B'' (Finite 7)] @ mkEdge ''B'' ''A'' (Finite 0) # []\<rparr>"
              "mkEdge ''B'' ''A'' (Finite 0)" "Finite 0" "[mkEdge ''A'' ''B'' (Finite 7)]" "[]" graph_two] g p
    by (simp add: mkEdge_def no_attr_def)
  with l w show ?thesis by simp
qed

subsection \<open>Names of a loaded graph\<close>

text \<open>
  C4, as the specification has it, does not hold: \<^verbatim>\<open>parseGraphMl\<close> compares no identifiers,
  and a document with two node elements A loads.
\<close>

theorem duplicate_identifiers_load:
  "parseGraphMl doc_duplicate = Inr graph_duplicate
   \<and> map (\<lambda>r. name (heap graph_duplicate ! r)) (graphNodes graph_duplicate) = [''A'', ''A'', ''B'']"
proof -
  have 1: "parseGraphMl doc_duplicate = Inr graph_duplicate" by code_simp
  have 2: "map (\<lambda>r. name (heap graph_duplicate ! r)) (graphNodes graph_duplicate) = [''A'', ''A'', ''B'']"
    by code_simp
  from 1 2 show ?thesis by (intro conjI)
qed

text \<open>
  C4 (amended): the nodes of a loaded graph carry, in order, the identifiers of the node
  elements, duplicates included; so the names of a loaded graph are pairwise different
  exactly when the identifiers of the document are.
\<close>

theorem loaded_names:
  assumes "parseGraphMl doc = Inr s"
  shows "\<exists>g. graphTag doc = Some g
           \<and> map (\<lambda>r. name (heap s ! r)) (graphNodes s) = map attr_id (nodeTags g)
           \<and> (distinct (map (\<lambda>r. name (heap s ! r)) (graphNodes s)) \<longleftrightarrow> distinct (map attr_id (nodeTags g)))"
proof -
  from parseGraphMl_Inr [OF assms] obtain g where g: "graphTag doc = Some g"
    and l: "loading (nodeTags g) (edgeTags g) s" by blast
  from l have gs: "graphNodes s = [0..<length (heap s)]" "map name (heap s) = map attr_id (nodeTags g)"
    by (simp_all add: loading_length) (simp_all add: loading_def)
  have "map (\<lambda>r. name (heap s ! r)) [0..<length (heap s)]
      = map name (map ((!) (heap s)) [0..<length (heap s)])"
    by simp
  also have "\<dots> = map name (heap s)"
    by (simp only: map_nth)
  finally have "map (\<lambda>r. name (heap s ! r)) (graphNodes s) = map attr_id (nodeTags g)"
    using gs by simp
  with g show ?thesis by simp
qed

text \<open>\<open>loaded_names\<close> at the document of scenario 2.\<close>

theorem loaded_names_witness:
  "parseGraphMl doc_two = Inr graph_two
   \<and> (\<exists>g. graphTag doc_two = Some g
           \<and> map (\<lambda>r. name (heap graph_two ! r)) (graphNodes graph_two) = map attr_id (nodeTags g)
           \<and> (distinct (map (\<lambda>r. name (heap graph_two ! r)) (graphNodes graph_two)) \<longleftrightarrow> distinct (map attr_id (nodeTags g))))"
proof -
  have l: "parseGraphMl doc_two = Inr graph_two" by code_simp
  from loaded_names [OF l] l show ?thesis by simp
qed

subsection \<open>Comparing numbers\<close>

lemma num_less_irrefl [simp]: "\<not> num_less a a"
  by (cases a) simp_all

lemma num_less_trans: "num_less a b \<Longrightarrow> num_less b c \<Longrightarrow> num_less a c"
  by (cases a; cases b; cases c) simp_all

lemma num_less_NaN [simp]: "\<not> num_less a NaN" "\<not> num_less NaN a"
  by (cases a; simp)+

lemma num_less_Infinity [simp]: "\<not> num_less Infinity a"
  by (cases a) simp_all

lemma num_less_neq: "num_less a b \<Longrightarrow> a \<noteq> b"
  by auto

lemma num_less_linear: "a \<noteq> NaN \<Longrightarrow> b \<noteq> NaN \<Longrightarrow> num_less a b \<or> a = b \<or> num_less b a"
  by (cases a; cases b) auto

lemma num_add_Infinity_not_less [simp]: "\<not> num_less (num_add Infinity w) d"
  by (cases w; cases d) simp_all

subsection \<open>The lookup table\<close>

lemma getTableEntry_node: "getTableEntryforNode lt r = Some e \<Longrightarrow> node e = r \<and> e \<in> set lt"
  by (auto simp: getTableEntryforNode_def find_Some_iff)

lemma getTableEntry_None: "getTableEntryforNode lt r = None \<longleftrightarrow> r \<notin> set (map node lt)"
  by (auto simp: getTableEntryforNode_def find_None_iff)

lemma getTableEntry_Some: "r \<in> set (map node lt) \<Longrightarrow> \<exists>e. getTableEntryforNode lt r = Some e"
  using getTableEntry_None [of lt r] by auto

lemma nodes_setEntry [simp]: "map node (setEntry lt a g d) = map node lt"
  by (induction lt) simp_all

lemma getTableEntry_setEntry:
  "getTableEntryforNode (setEntry lt a g d) r =
     (if r = a
      then map_option (\<lambda>e. e\<lparr>previousNode := Some g, shortestDistanceToTargetNode := d\<rparr>)
             (getTableEntryforNode lt a)
      else getTableEntryforNode lt r)"
  by (induction lt) (auto simp: getTableEntryforNode_def)

lemma distanceOf_setEntry:
  "a \<in> set (map node lt) \<Longrightarrow> distanceOf (setEntry lt a g d) r = (if r = a then d else distanceOf lt r)"
  using getTableEntry_Some [of a lt]
  by (auto simp: distanceOf_def getTableEntry_setEntry)

lemma previousOf_setEntry:
  "a \<in> set (map node lt) \<Longrightarrow> previousOf (setEntry lt a g d) r = (if r = a then Some g else previousOf lt r)"
  using getTableEntry_Some [of a lt]
  by (auto simp: previousOf_def getTableEntry_setEntry)

lemma nodes_relax1 [simp]: "map node (relax1 u lt e) = map node lt"
  by (simp add: relax1_def Let_def)

lemma distanceOf_relax1:
  "targetNode e \<in> set (map node lt) \<Longrightarrow>
   distanceOf (relax1 u lt e) r =
     (if r = targetNode e \<and> num_less (num_add (distanceOf lt u) (weight e)) (distanceOf lt r)
      then num_add (distanceOf lt u) (weight e) else distanceOf lt r)"
  by (auto simp: relax1_def Let_def distanceOf_setEntry)

lemma previousOf_relax1:
  "targetNode e \<in> set (map node lt) \<Longrightarrow>
   previousOf (relax1 u lt e) r =
     (if r = targetNode e \<and> num_less (num_add (distanceOf lt u) (weight e)) (distanceOf lt r)
      then Some u else previousOf lt r)"
  by (auto simp: relax1_def Let_def previousOf_setEntry)

lemma relaxEdges_foldl:
  "u \<in> set (map node lt) \<Longrightarrow> \<forall>e\<in>set es. targetNode e \<in> set (map node lt) \<Longrightarrow>
   relaxEdges lt u es = Inr (foldl (relax1 u) lt es)"
proof (induction es arbitrary: lt)
  case Nil
  then show ?case by simp
next
  case (Cons e es)
  from Cons.prems obtain ue te where ue: "getTableEntryforNode lt u = Some ue"
    and te: "getTableEntryforNode lt (targetNode e) = Some te"
    by (metis getTableEntry_Some list.set_intros(1))
  have step: "relaxEdges lt u (e # es) = relaxEdges (relax1 u lt e) u es"
    using ue te by (simp add: relax1_def distanceOf_def Let_def)
  have "relaxEdges (relax1 u lt e) u es = Inr (foldl (relax1 u) (relax1 u lt e) es)"
    using Cons.prems by (intro Cons.IH) simp_all
  with step show ?case by simp
qed

lemma foldl_invariant:
  "P a \<Longrightarrow> (\<And>a x. P a \<Longrightarrow> x \<in> set xs \<Longrightarrow> P (f a x)) \<Longrightarrow> P (foldl f a xs)"
  by (induction xs arbitrary: a) simp_all

lemma nodes_foldl_relax1 [simp]: "map node (foldl (relax1 u) lt es) = map node lt"
  by (induction es arbitrary: lt) simp_all

subsection \<open>The smallest entry\<close>

lemma smallest_in: "smallest c es \<in> set (c # es)"
  by (induction es arbitrary: c) (auto simp del: smallest.simps simp add: smallest.simps split: if_splits)

lemma smallest_le_start:
  "shortestDistanceToTargetNode (smallest c es) = shortestDistanceToTargetNode c
   \<or> num_less (shortestDistanceToTargetNode (smallest c es)) (shortestDistanceToTargetNode c)"
proof (induction es arbitrary: c)
  case Nil
  then show ?case by simp
next
  case (Cons e es)
  show ?case
  proof (cases "num_less (shortestDistanceToTargetNode e) (shortestDistanceToTargetNode c)")
    case True
    with Cons.IH [of e] show ?thesis by (auto intro: num_less_trans)
  next
    case False
    with Cons.IH [of c] show ?thesis by simp
  qed
qed

lemma smallest_min:
  "x \<in> set (c # es) \<Longrightarrow>
   \<not> num_less (shortestDistanceToTargetNode x) (shortestDistanceToTargetNode (smallest c es))"
proof (induction es arbitrary: c)
  case Nil
  then show ?case by simp
next
  case (Cons e es)
  show ?case
  proof (cases "num_less (shortestDistanceToTargetNode e) (shortestDistanceToTargetNode c)")
    case True
    then have s: "smallest c (e # es) = smallest e es" by simp
    show ?thesis
    proof (cases "x = c")
      case xc: True
      from smallest_le_start [of e es] True xc show ?thesis
        unfolding s by (metis num_less_trans num_less_irrefl)
    next
      case False
      with Cons.prems have "x \<in> set (e # es)" by auto
      from Cons.IH [OF this] show ?thesis unfolding s .
    qed
  next
    case False
    then have s: "smallest c (e # es) = smallest c es" by simp
    show ?thesis
    proof (cases "x = e")
      case xe: True
      from smallest_le_start [of c es] False xe show ?thesis
        unfolding s by (metis num_less_trans)
    next
      case False
      with Cons.prems have "x \<in> set (c # es)" by auto
      from Cons.IH [OF this] show ?thesis unfolding s .
    qed
  qed
qed

lemma smallest_first:
  "\<exists>pre post. c # es = pre @ smallest c es # post
     \<and> (\<forall>x\<in>set pre. shortestDistanceToTargetNode x \<noteq> shortestDistanceToTargetNode (smallest c es))"
proof (induction es arbitrary: c)
  case Nil
  show ?case by (rule exI [of _ "[]"]) simp
next
  case (Cons e es)
  let ?d = shortestDistanceToTargetNode
  show ?case
  proof (cases "num_less (?d e) (?d c)")
    case True
    then have s: "smallest c (e # es) = smallest e es" by simp
    from Cons.IH [of e] obtain pre post where p: "e # es = pre @ smallest e es # post"
      and f: "\<forall>x\<in>set pre. ?d x \<noteq> ?d (smallest e es)" by blast
    from smallest_le_start [of e es] True have "num_less (?d (smallest e es)) (?d c)"
      by (auto intro: num_less_trans)
    then have "?d c \<noteq> ?d (smallest e es)" by auto
    with p f have "c # e # es = (c # pre) @ smallest e es # post
      \<and> (\<forall>x\<in>set (c # pre). ?d x \<noteq> ?d (smallest e es))" by simp
    then show ?thesis unfolding s by blast
  next
    case False
    then have s: "smallest c (e # es) = smallest c es" by simp
    from Cons.IH [of c] obtain pre post where p: "c # es = pre @ smallest c es # post"
      and f: "\<forall>x\<in>set pre. ?d x \<noteq> ?d (smallest c es)" by blast
    show ?thesis
    proof (cases pre)
      case Nil
      with p have "smallest c es = c" by (metis append_Nil list.inject)
      then have "c # e # es = [] @ smallest c es # (e # es)
        \<and> (\<forall>x\<in>set []. ?d x \<noteq> ?d (smallest c es))" by simp
      then show ?thesis unfolding s by blast
    next
      case (Cons c' pre')
      with p have "c # es = c' # (pre' @ smallest c es # post)" by (metis append_Cons)
      then have c': "c' = c" and es: "es = pre' @ smallest c es # post"
        by (metis list.inject)+
      from f Cons c' have "?d c \<noteq> ?d (smallest c es)" by simp
      with smallest_le_start [of c es] have "num_less (?d (smallest c es)) (?d c)" by auto
      with False have "?d e \<noteq> ?d (smallest c es)" by auto
      with f Cons c' have "\<forall>x\<in>set (c # e # pre'). ?d x \<noteq> ?d (smallest c es)" by simp
      moreover from es have "c # e # es = (c # e # pre') @ smallest c es # post" by simp
      ultimately show ?thesis unfolding s by blast
    qed
  qed
qed

lemma find_eq_Some: "x \<in> set xs \<Longrightarrow> List.find (\<lambda>g. g = x) xs = Some x"
  by (induction xs) auto

lemma getTableEntry_distinct:
  "distinct (map node lt) \<Longrightarrow> e \<in> set lt \<Longrightarrow> getTableEntryforNode lt (node e) = Some e"
  by (induction lt) (auto simp: getTableEntryforNode_def)

lemma distanceOf_entry:
  "distinct (map node lt) \<Longrightarrow> e \<in> set lt \<Longrightarrow> distanceOf lt (node e) = shortestDistanceToTargetNode e"
  by (simp add: distanceOf_def getTableEntry_distinct)

lemma select_first_minimum:
  assumes d: "distinct (map node lt)"
    and U: "map node (filter (\<lambda>e. node e \<in> set U) lt) = U"
    and ne: "U \<noteq> []"
  shows "\<exists>u pre post. findNodeWithSmallestKnownDistance lt U = Inr u \<and> U = pre @ u # post
           \<and> (\<forall>y\<in>set U. \<not> num_less (distanceOf lt y) (distanceOf lt u))
           \<and> (\<forall>y\<in>set pre. distanceOf lt y \<noteq> distanceOf lt u)"
proof -
  let ?F = "filter (\<lambda>e. node e \<in> set U) lt"
  let ?d = shortestDistanceToTargetNode
  from U ne obtain e0 rest where F: "?F = e0 # rest" by (cases ?F) auto
  let ?res = "smallest e0 rest"
  have s0: "smallest e0 (e0 # rest) = ?res" by simp
  have resF: "?res \<in> set ?F" using smallest_in [of e0 rest] F by simp
  then have res_lt: "?res \<in> set lt" and res_U: "node ?res \<in> set U" by simp_all
  have dist_F: "distanceOf lt (node x) = ?d x" if "x \<in> set ?F" for x
    using that d by (intro distanceOf_entry) simp_all
  have sel: "findNodeWithSmallestKnownDistance lt U = Inr (node ?res)"
    using res_U by (simp add: findNodeWithSmallestKnownDistance_def F find_eq_Some del: smallest.simps add: s0)
  from smallest_first [of e0 rest] obtain pre post where p: "e0 # rest = pre @ ?res # post"
    and f: "\<forall>x\<in>set pre. ?d x \<noteq> ?d ?res" by blast
  have Ueq: "U = map node pre @ node ?res # map node post"
    using U F p by (metis list.simps(9) map_append)
  have min: "\<not> num_less (distanceOf lt y) (distanceOf lt (node ?res))" if "y \<in> set U" for y
  proof -
    from that U obtain x where x: "x \<in> set ?F" "node x = y"
      by (metis (no_types, lifting) imageE list.set_map)
    with F have "x \<in> set (e0 # rest)" by simp
    from smallest_min [OF this] x dist_F [OF x(1)] dist_F [OF resF] show ?thesis by simp
  qed
  have first: "distanceOf lt y \<noteq> distanceOf lt (node ?res)" if "y \<in> set (map node pre)" for y
  proof -
    from that obtain x where x: "x \<in> set pre" "node x = y" by auto
    with p F have "x \<in> set ?F" by (metis Un_iff set_append)
    from dist_F [OF this] dist_F [OF resF] f x show ?thesis by auto
  qed
  from sel Ueq min first show ?thesis by blast
qed

subsection \<open>Removing the selected node\<close>

lemma indexOf_bounds: "x \<in> set xs \<Longrightarrow> 0 \<le> indexOf xs x \<and> indexOf xs x < int (length xs)"
  by (induction xs) (auto simp: Let_def)

lemma splice1_Cons:
  "0 \<le> i \<Longrightarrow> i < int (length xs) \<Longrightarrow> splice1 (y # xs) (i + 1) = y # splice1 xs i"
  by (simp add: splice1_def Let_def nat_add_distrib)

lemma splice1_indexOf: "x \<in> set xs \<Longrightarrow> splice1 xs (indexOf xs x) = remove1 x xs"
proof (induction xs)
  case Nil
  then show ?case by simp
next
  case (Cons y ys)
  show ?case
  proof (cases "y = x")
    case True
    then show ?thesis by (simp add: splice1_def)
  next
    case False
    with Cons.prems have x: "x \<in> set ys" by simp
    from indexOf_bounds [OF x] have "\<not> indexOf ys x < 0" by simp
    with False indexOf_bounds [OF x] Cons.IH [OF x] show ?thesis
      by (simp add: Let_def splice1_Cons)
  qed
qed

subsection \<open>The loop and its iterations\<close>

lemma mainLoop_iterations:
  "\<exists>k lt' V' U'. iterations (heap s) n k (lt, V, graphNodes s) = Some (lt', V', U')
      \<and> snd (mainLoop n lt V s) = s\<lparr>graphNodes := U'\<rparr>
      \<and> (case fst (mainLoop n lt V s) of
            Inr ltf \<Rightarrow> ltf = lt' \<and> \<not> length V' < n
          | Inl e \<Rightarrow> length V' < n \<and> loopBody (heap s) (lt', V', U') = Inl e)"
proof (induction n lt V s rule: mainLoop.induct)
  case (1 n lt V s)
  show ?case
  proof (cases "length V < n")
    case False
    then have "mainLoop n lt V s = (Inr lt, s)" by (simp add: mainLoop.simps)
    with False have "iterations (heap s) n 0 (lt, V, graphNodes s) = Some (lt, V, graphNodes s)
      \<and> snd (mainLoop n lt V s) = s\<lparr>graphNodes := graphNodes s\<rparr>
      \<and> (case fst (mainLoop n lt V s) of
            Inr ltf \<Rightarrow> ltf = lt \<and> \<not> length V < n
          | Inl e \<Rightarrow> length V < n \<and> loopBody (heap s) (lt, V, graphNodes s) = Inl e)"
      by simp
    then show ?thesis by blast
  next
    case True
    show ?thesis
    proof (cases "loopBody (heap s) (lt, V, graphNodes s)")
      case (Inl e)
      with True have "mainLoop n lt V s = (Inl e, s)"
        by (auto simp: mainLoop.simps [of n lt V s] loopBody_def split: sum.splits)
      with True Inl have "iterations (heap s) n 0 (lt, V, graphNodes s) = Some (lt, V, graphNodes s)
        \<and> snd (mainLoop n lt V s) = s\<lparr>graphNodes := graphNodes s\<rparr>
        \<and> (case fst (mainLoop n lt V s) of
              Inr ltf \<Rightarrow> ltf = lt \<and> \<not> length V < n
            | Inl e \<Rightarrow> length V < n \<and> loopBody (heap s) (lt, V, graphNodes s) = Inl e)"
        by simp
      then show ?thesis by blast
    next
      case (Inr c')
      then obtain u lt1 where u: "findNodeWithSmallestKnownDistance lt (graphNodes s) = Inr u"
        and lt1: "checkNeighboringNodes (heap s) lt u = Inr lt1"
        and c': "c' = (lt1, V @ [u], splice1 (graphNodes s) (indexOf (graphNodes s) u))"
        by (auto simp: loopBody_def split: sum.splits)
      let ?s1 = "s\<lparr>graphNodes := splice1 (graphNodes s) (indexOf (graphNodes s) u)\<rparr>"
      have ml: "mainLoop n lt V s = mainLoop n lt1 (V @ [u]) ?s1"
        using True u lt1 by (simp add: mainLoop.simps [of n lt V s])
      from "1.IH" [OF True u lt1] obtain k lt' V' U' where
        it: "iterations (heap ?s1) n k (lt1, V @ [u], graphNodes ?s1) = Some (lt', V', U')"
        and sn: "snd (mainLoop n lt1 (V @ [u]) ?s1) = ?s1\<lparr>graphNodes := U'\<rparr>"
        and fs: "(case fst (mainLoop n lt1 (V @ [u]) ?s1) of
              Inr ltf \<Rightarrow> ltf = lt' \<and> \<not> length V' < n
            | Inl e \<Rightarrow> length V' < n \<and> loopBody (heap ?s1) (lt', V', U') = Inl e)"
        by blast
      have "iterations (heap s) n (Suc k) (lt, V, graphNodes s) = Some (lt', V', U')"
        using True Inr c' it by simp
      moreover have "snd (mainLoop n lt V s) = s\<lparr>graphNodes := U'\<rparr>"
        using sn ml by simp
      moreover have "(case fst (mainLoop n lt V s) of
              Inr ltf \<Rightarrow> ltf = lt' \<and> \<not> length V' < n
            | Inl e \<Rightarrow> length V' < n \<and> loopBody (heap s) (lt', V', U') = Inl e)"
        using fs ml by (auto split: sum.splits)
      ultimately show ?thesis by blast
    qed
  qed
qed

lemma iterations_invariant:
  assumes "I c"
    and "\<And>lt V U c'. I (lt, V, U) \<Longrightarrow> length V < n \<Longrightarrow> loopBody h (lt, V, U) = Inr c' \<Longrightarrow> I c'"
    and "iterations h n k c = Some c'"
  shows "I c'"
  using assms(1,3)
proof (induction k arbitrary: c)
  case 0
  then show ?case by simp
next
  case (Suc k)
  obtain lt V U where c: "c = (lt, V, U)" by (cases c)
  from Suc.prems(2) c obtain c1 where len: "length V < n" and b: "loopBody h (lt, V, U) = Inr c1"
    and it: "iterations h n k c1 = Some c'"
    by (auto split: if_splits sum.splits)
  from assms(2) [OF _ len b] Suc.prems(1) c have "I c1" by simp
  from Suc.IH [OF this it] show ?case .
qed

lemma loaded_wf_edges:
  assumes "parseGraphMl doc = Inr s"
  shows "wf_edges (heap s) (graphNodes s)"
proof -
  from parseGraphMl_Inr [OF assms] obtain g :: XmlGraph where l: "loading (nodeTags g) (edgeTags g) s"
    by blast
  then have G: "graphNodes s = [0..<length (nodeTags g)]" and len: "length (heap s) = length (nodeTags g)"
    by (simp_all add: loading_length) (simp add: loading_def)
  have "targetNode e \<in> set (graphNodes s)"
    if "r \<in> set (graphNodes s)" "e \<in> set (edgesToNodes (heap s ! r))" for r e
  proof -
    from that G len have "(r, targetNode e, weight e) \<in> edgeSet (heap s)"
      by (auto simp: edgeSet_def)
    with l have "targetNode e < length (nodeTags g)"
      unfolding loading_def by blast
    with G show ?thesis by simp
  qed
  with G show ?thesis by (simp add: wf_edges_def)
qed

lemma loaded_nonempty:
  assumes "parseGraphMl doc = Inr s"
  shows "2 \<le> length (graphNodes s)"
proof -
  from parseGraphMl_Inr [OF assms] obtain g :: XmlGraph where "2 \<le> length (nodeTags g)"
    and "loading (nodeTags g) (edgeTags g) s" by blast
  then show ?thesis by (simp add: loading_def)
qed

lemma find_map_node:
  "(\<And>x. node (f x) = x) \<Longrightarrow>
   List.find (\<lambda>e. node e = r) (map f G) = (if r \<in> set G then Some (f r) else None)"
  by (induction G) auto

lemma getTableEntry_init:
  "getTableEntryforNode (initLookupTable s start) r =
     (if r \<in> set (graphNodes s)
      then Some \<lparr>node = r, shortestDistanceToTargetNode = (if r = start then Finite 0 else Infinity),
                 previousNode = None\<rparr>
      else None)"
  unfolding initLookupTable_def getTableEntryforNode_def
  by (subst find_map_node) simp_all

lemma distanceOf_init:
  "distanceOf (initLookupTable s start) r =
     (if r = start \<and> r \<in> set (graphNodes s) then Finite 0 else Infinity)"
  by (simp add: distanceOf_def getTableEntry_init)

lemma previousOf_init [simp]: "previousOf (initLookupTable s start) r = None"
  by (simp add: previousOf_def getTableEntry_init)

lemma nodes_init [simp]: "map node (initLookupTable s start) = graphNodes s"
  by (simp add: initLookupTable_def comp_def)

lemma loop_inv_init: "loop_inv (graphNodes s) (initLookupTable s start, [], graphNodes s)"
  by (simp add: loop_inv_def)

lemma loop_inv_unvisited:
  assumes "distinct G" "loop_inv G (lt, V, U)" "length V < length G"
  shows "U \<noteq> []"
proof -
  from assms have "card (set V) < card (set G)"
    by (simp add: loop_inv_def distinct_card)
  with assms(2) have "set V \<noteq> set G" by auto
  with assms(2) obtain r where "r \<in> set G" "r \<notin> set V" by (auto simp: loop_inv_def)
  with assms(2) have "r \<in> set U" by (simp add: loop_inv_def)
  then show ?thesis by auto
qed

lemma loop_inv_done:
  assumes "distinct G" "loop_inv G (lt, V, U)" "\<not> length V < length G"
  shows "U = [] \<and> set V = set G"
proof -
  from assms have "card (set G) \<le> card (set V)"
    by (simp add: loop_inv_def distinct_card)
  moreover from assms(2) have "set V \<subseteq> set G" by (simp add: loop_inv_def)
  ultimately have "set V = set G" by (simp add: card_seteq)
  with assms(2) show ?thesis by (simp add: loop_inv_def)
qed

lemma loop_inv_filtered:
  assumes "distinct G" "loop_inv G (lt, V, U)"
  shows "map node (filter (\<lambda>e. node e \<in> set U) lt) = U"
proof -
  from assms(2) have lt: "map node lt = G" and U: "U = filter (\<lambda>r. r \<notin> set V) G"
    by (simp_all add: loop_inv_def)
  have "map node (filter (\<lambda>e. node e \<in> set U) lt) = filter (\<lambda>r. r \<in> set U) (map node lt)"
    by (simp add: filter_map comp_def)
  also have "\<dots> = filter (\<lambda>r. r \<in> set U) G" by (simp add: lt)
  also have "\<dots> = filter (\<lambda>r. r \<notin> set V) G"
    unfolding U by (rule filter_cong) auto
  finally show ?thesis by (simp add: U)
qed

lemma loop_step:
  assumes wf: "wf_edges h G" and inv: "loop_inv G (lt, V, U)" and len: "length V < length G"
  shows "\<exists>u pre post. findNodeWithSmallestKnownDistance lt U = Inr u \<and> U = pre @ u # post
           \<and> (\<forall>y\<in>set U. \<not> num_less (distanceOf lt y) (distanceOf lt u))
           \<and> (\<forall>y\<in>set pre. distanceOf lt y \<noteq> distanceOf lt u)
           \<and> u \<in> set G \<and> u \<notin> set V
           \<and> loopBody h (lt, V, U) =
               Inr (foldl (relax1 u) lt (edgesToNodes (h ! u)), V @ [u], filter (\<lambda>r. r \<notin> set (V @ [u])) G)"
proof -
  from wf have dG: "distinct G" by (simp add: wf_edges_def)
  from inv have lt: "map node lt = G" and U: "U = filter (\<lambda>r. r \<notin> set V) G"
    by (simp_all add: loop_inv_def)
  have "distinct (map node lt)" using lt dG by simp
  from select_first_minimum [OF this loop_inv_filtered [OF dG inv] loop_inv_unvisited [OF dG inv len]]
  obtain u pre post where sel: "findNodeWithSmallestKnownDistance lt U = Inr u"
    and Ueq: "U = pre @ u # post"
    and min: "\<forall>y\<in>set U. \<not> num_less (distanceOf lt y) (distanceOf lt u)"
    and first: "\<forall>y\<in>set pre. distanceOf lt y \<noteq> distanceOf lt u"
    by blast
  from Ueq have uU: "u \<in> set U" by simp
  with U have uG: "u \<in> set G" and uV: "u \<notin> set V" by simp_all
  from wf uG have "\<forall>e\<in>set (edgesToNodes (h ! u)). targetNode e \<in> set (map node lt)"
    by (simp add: wf_edges_def lt)
  with uG lt have chk: "checkNeighboringNodes h lt u = Inr (foldl (relax1 u) lt (edgesToNodes (h ! u)))"
    unfolding checkNeighboringNodes_def by (intro relaxEdges_foldl) simp_all
  have "distinct U" using U dG by simp
  then have "remove1 u U = filter (\<lambda>r. r \<noteq> u) U"
    by (simp add: distinct_remove1_removeAll removeAll_filter_not_eq) (metis)
  also have "\<dots> = filter (\<lambda>r. r \<notin> set (V @ [u])) G"
    unfolding U by (simp add: conj_commute)
  finally have "splice1 U (indexOf U u) = filter (\<lambda>r. r \<notin> set (V @ [u])) G"
    using splice1_indexOf [OF uU] by simp
  with sel chk have "loopBody h (lt, V, U) =
               Inr (foldl (relax1 u) lt (edgesToNodes (h ! u)), V @ [u], filter (\<lambda>r. r \<notin> set (V @ [u])) G)"
    by (simp add: loopBody_def)
  with sel Ueq min first uG uV show ?thesis by blast
qed

lemma loop_inv_step:
  assumes wf: "wf_edges h G" and inv: "loop_inv G (lt, V, U)" and len: "length V < length G"
    and body: "loopBody h (lt, V, U) = Inr c'"
  shows "loop_inv G c'"
proof -
  from loop_step [OF wf inv len] body obtain u where "u \<in> set G" "u \<notin> set V"
    and "c' = (foldl (relax1 u) lt (edgesToNodes (h ! u)), V @ [u], filter (\<lambda>r. r \<notin> set (V @ [u])) G)"
    by auto
  with inv show ?thesis by (simp add: loop_inv_def)
qed

lemma iterations_loop_inv:
  assumes "wf_edges h G" "loop_inv G c" "iterations h (length G) k c = Some c'"
  shows "loop_inv G c'"
  using assms(2) loop_inv_step [OF assms(1)] assms(3)
  by (rule iterations_invariant)

lemma mainLoop_result:
  assumes wf: "wf_edges (heap s) (graphNodes s)"
  shows "\<exists>k lt' V'. iterations (heap s) (length (graphNodes s)) k
                      (initLookupTable s start, [], graphNodes s) = Some (lt', V', [])
           \<and> mainLoop (length (graphNodes s)) (initLookupTable s start) [] s
               = (Inr lt', s\<lparr>graphNodes := []\<rparr>)
           \<and> map node lt' = graphNodes s \<and> set V' = set (graphNodes s)"
proof -
  let ?G = "graphNodes s" and ?lt = "initLookupTable s start"
  from wf have dG: "distinct ?G" by (simp add: wf_edges_def)
  from mainLoop_iterations [of s "length ?G" ?lt "[]"] obtain k lt' V' U' where
    it: "iterations (heap s) (length ?G) k (?lt, [], ?G) = Some (lt', V', U')"
    and sn: "snd (mainLoop (length ?G) ?lt [] s) = s\<lparr>graphNodes := U'\<rparr>"
    and fs: "(case fst (mainLoop (length ?G) ?lt [] s) of
            Inr ltf \<Rightarrow> ltf = lt' \<and> \<not> length V' < length ?G
          | Inl e \<Rightarrow> length V' < length ?G \<and> loopBody (heap s) (lt', V', U') = Inl e)"
    by blast
  from iterations_loop_inv [OF wf loop_inv_init it] have inv: "loop_inv ?G (lt', V', U')" .
  have "\<exists>ltf. fst (mainLoop (length ?G) ?lt [] s) = Inr ltf"
  proof (cases "fst (mainLoop (length ?G) ?lt [] s)")
    case (Inl e)
    with fs have "length V' < length ?G" "loopBody (heap s) (lt', V', U') = Inl e" by simp_all
    with loop_step [OF wf inv] show ?thesis by auto
  next
    case (Inr ltf)
    then show ?thesis by simp
  qed
  then obtain ltf where r: "fst (mainLoop (length ?G) ?lt [] s) = Inr ltf" by blast
  with fs have ltf: "ltf = lt'" and fin: "\<not> length V' < length ?G" by simp_all
  from loop_inv_done [OF dG inv fin] have U': "U' = []" and V': "set V' = set ?G" by simp_all
  from r sn ltf U' have "mainLoop (length ?G) ?lt [] s = (Inr lt', s\<lparr>graphNodes := []\<rparr>)"
    by (metis prod.collapse)
  moreover from inv have "map node lt' = ?G" by (simp add: loop_inv_def)
  ultimately show ?thesis using it U' V' by blast
qed

lemma iterations_relax_invariant:
  assumes wf: "wf_edges h G"
    and init: "loop_inv G c" "I c"
    and step: "\<And>lt V U u. loop_inv G (lt, V, U) \<Longrightarrow> I (lt, V, U) \<Longrightarrow> length V < length G \<Longrightarrow>
                 u \<in> set G \<Longrightarrow> u \<notin> set V \<Longrightarrow>
                 \<forall>y\<in>set U. \<not> num_less (distanceOf lt y) (distanceOf lt u) \<Longrightarrow>
                 I (foldl (relax1 u) lt (edgesToNodes (h ! u)), V @ [u], filter (\<lambda>r. r \<notin> set (V @ [u])) G)"
    and it: "iterations h (length G) k c = Some c'"
  shows "loop_inv G c' \<and> I c'"
proof -
  let ?J = "\<lambda>c. loop_inv G c \<and> I c"
  have "?J c'"
  proof (rule iterations_invariant [where I = ?J, OF _ _ it])
    show "?J c" using init by simp
  next
    fix lt V U c1
    assume J: "?J (lt, V, U)" and len: "length V < length G" and body: "loopBody h (lt, V, U) = Inr c1"
    from loop_step [OF wf _ len, of lt U] J body obtain u where
      u: "u \<in> set G" "u \<notin> set V" "\<forall>y\<in>set U. \<not> num_less (distanceOf lt y) (distanceOf lt u)"
      and c1: "c1 = (foldl (relax1 u) lt (edgesToNodes (h ! u)), V @ [u], filter (\<lambda>r. r \<notin> set (V @ [u])) G)"
      by auto
    from step [OF _ _ len u] J have "I c1" unfolding c1 by simp
    moreover from loop_inv_step [OF wf _ len body] J have "loop_inv G c1" by simp
    ultimately show "?J c1" by simp
  qed
  then show ?thesis .
qed

subsection \<open>No distance is NaN\<close>

lemma no_NaN_relax1:
  assumes "targetNode e \<in> set (map node lt)" "\<forall>r. distanceOf lt r \<noteq> NaN"
  shows "distanceOf (relax1 u lt e) r \<noteq> NaN"
  using assms by (auto simp: distanceOf_relax1)

lemma no_NaN_relax:
  assumes "\<forall>e\<in>set es. targetNode e \<in> set (map node lt)" "\<forall>r. distanceOf lt r \<noteq> NaN"
  shows "\<forall>r. distanceOf (foldl (relax1 u) lt es) r \<noteq> NaN"
proof -
  let ?P = "\<lambda>t. map node t = map node lt \<and> (\<forall>r. distanceOf t r \<noteq> NaN)"
  have "?P (foldl (relax1 u) lt es)"
  proof (rule foldl_invariant [where P = ?P])
    show "?P lt" using assms(2) by simp
  next
    fix t e assume "?P t" "e \<in> set es"
    with assms(1) show "?P (relax1 u t e)" by (auto simp: no_NaN_relax1)
  qed
  then show ?thesis by simp
qed

lemma iterations_no_NaN:
  assumes wf: "wf_edges (heap s) (graphNodes s)"
    and it: "iterations (heap s) (length (graphNodes s)) k (initLookupTable s start, [], graphNodes s)
               = Some (lt, V, U)"
  shows "loop_inv (graphNodes s) (lt, V, U) \<and> (\<forall>r. distanceOf lt r \<noteq> NaN)"
proof -
  let ?I = "\<lambda>c. case c of (lt, V, U) \<Rightarrow> \<forall>r. distanceOf lt r \<noteq> NaN"
  have "loop_inv (graphNodes s) (lt, V, U) \<and> ?I (lt, V, U)"
  proof (rule iterations_relax_invariant [where I = ?I, OF wf loop_inv_init _ _ it])
    show "?I (initLookupTable s start, [], graphNodes s)"
      by (simp add: distanceOf_init)
  next
    fix lt V U u
    assume inv: "loop_inv (graphNodes s) (lt, V, U)" and I: "?I (lt, V, U)" and u: "u \<in> set (graphNodes s)"
    from wf u inv have "\<forall>e\<in>set (edgesToNodes (heap s ! u)). targetNode e \<in> set (map node lt)"
      by (simp add: wf_edges_def loop_inv_def)
    from no_NaN_relax [OF this] I
    show "?I (foldl (relax1 u) lt (edgesToNodes (heap s ! u)), V @ [u],
              filter (\<lambda>r. r \<notin> set (V @ [u])) (graphNodes s))"
      by simp
  qed
  then show ?thesis by simp
qed

subsection \<open>The node selected in an iteration\<close>

text \<open>
  C6: at every iteration of the main loop of a query on a loaded graph, that is, in every
  state that iterations of the loop body reach from the initial state and in which the loop
  condition holds, \<^verbatim>\<open>findNodeWithSmallestKnownDistance\<close> returns a node of the unvisited array (the
  nodes of the graph that are not visited, in the order of the graph); no distance of the table
  is \<^verbatim>\<open>NaN\<close>, no unvisited node has a smaller distance than the chosen one, and every unvisited
  node before the chosen one has a strictly greater distance.
\<close>

theorem selected_node_is_first_minimum:
  assumes load: "parseGraphMl doc = Inr s"
    and it: "iterations (heap s) (length (graphNodes s)) k (initLookupTable s start, [], graphNodes s)
               = Some (lt, V, U)"
    and len: "length V < length (graphNodes s)"
  shows "\<exists>u pre post. findNodeWithSmallestKnownDistance lt U = Inr u
           \<and> U = filter (\<lambda>r. r \<notin> set V) (graphNodes s) \<and> U = pre @ u # post
           \<and> (\<forall>y\<in>set U. distanceOf lt y \<noteq> NaN \<and> \<not> num_less (distanceOf lt y) (distanceOf lt u))
           \<and> (\<forall>y\<in>set pre. num_less (distanceOf lt u) (distanceOf lt y))"
proof -
  from loaded_wf_edges [OF load] have wf: "wf_edges (heap s) (graphNodes s)" .
  from iterations_no_NaN [OF wf it] have inv: "loop_inv (graphNodes s) (lt, V, U)"
    and nn: "\<forall>r. distanceOf lt r \<noteq> NaN" by simp_all
  from loop_step [OF wf inv len] obtain u pre post where
    sel: "findNodeWithSmallestKnownDistance lt U = Inr u" and U: "U = pre @ u # post"
    and min: "\<forall>y\<in>set U. \<not> num_less (distanceOf lt y) (distanceOf lt u)"
    and first: "\<forall>y\<in>set pre. distanceOf lt y \<noteq> distanceOf lt u"
    by blast
  have "num_less (distanceOf lt u) (distanceOf lt y)" if "y \<in> set pre" for y
  proof -
    from that U have "y \<in> set U" by simp
    with min have "\<not> num_less (distanceOf lt y) (distanceOf lt u)" by simp
    with first that num_less_linear [of "distanceOf lt y" "distanceOf lt u"] nn show ?thesis by auto
  qed
  moreover from inv have "U = filter (\<lambda>r. r \<notin> set V) (graphNodes s)" by (simp add: loop_inv_def)
  ultimately show ?thesis using sel U min nn by blast
qed

text \<open>
  \<open>selected_node_is_first_minimum\<close> at the second iteration of the query from A on a graph
  where three nodes are unvisited: B and C are both at distance 1 and D is at infinity. The
  theorem leaves B only: C has B before it at the same distance, and D is farther than B.
\<close>

theorem selected_node_is_first_minimum_witness:
  "parseGraphMl doc_tie = Inr graph_tie
   \<and> iterations (heap graph_tie) (length (graphNodes graph_tie)) 1
        (initLookupTable graph_tie 0, [], graphNodes graph_tie)
      = Some (table_tie, [0], [1, 2, 3])
   \<and> distanceOf table_tie 1 = Finite 1 \<and> distanceOf table_tie 2 = Finite 1
   \<and> distanceOf table_tie 3 = Infinity
   \<and> findNodeWithSmallestKnownDistance table_tie [1, 2, 3] = Inr 1"
proof -
  have l: "parseGraphMl doc_tie = Inr graph_tie" by code_simp
  have i: "iterations (heap graph_tie) (length (graphNodes graph_tie)) 1
        (initLookupTable graph_tie 0, [], graphNodes graph_tie) = Some (table_tie, [0], [1, 2, 3])"
    by code_simp
  have n: "length [0::nat] < length (graphNodes graph_tie)" by code_simp
  have d1: "distanceOf table_tie 1 = Finite 1" by code_simp
  have d2: "distanceOf table_tie 2 = Finite 1" by code_simp
  have d3: "distanceOf table_tie 3 = Infinity" by code_simp
  from selected_node_is_first_minimum [OF l i n] obtain u pre post where
    sel: "findNodeWithSmallestKnownDistance table_tie [1, 2, 3] = Inr u"
    and U: "[1, 2, 3] = pre @ u # post"
    and least: "\<forall>y\<in>set [1, 2, 3]. \<not> num_less (distanceOf table_tie y) (distanceOf table_tie u)"
    and first: "\<forall>y\<in>set pre. num_less (distanceOf table_tie u) (distanceOf table_tie y)"
    by blast
  from U have "(pre = [] \<and> u = 1) \<or> (pre = [1] \<and> u = 2) \<or> (pre = [1, 2] \<and> u = 3)"
    by (auto simp: append_eq_Cons_conv Cons_eq_append_conv)
  with least first d1 d2 d3 have "u = 1" by auto
  with sel l i d1 d2 d3 show ?thesis by simp
qed

lemma findShortestPathBetween_after_loop:
  assumes wf: "wf_edges (heap s) (graphNodes s)"
    and ra: "ra \<in> set (graphNodes s)" and re: "re \<in> set (graphNodes s)"
  shows "\<exists>k lt V. iterations (heap s) (length (graphNodes s)) k (initLookupTable s ra, [], graphNodes s)
                    = Some (lt, V, [])
           \<and> set V = set (graphNodes s)
           \<and> mainLoop (length (graphNodes s)) (initLookupTable s ra) [] s = (Inr lt, s\<lparr>graphNodes := []\<rparr>)
           \<and> findShortestPathBetween s ra re =
               (case rewind (heap s) lt ra (Some re) [] of
                  None \<Rightarrow> None
                | Some (Inl e) \<Rightarrow> Some (Inl e, s\<lparr>graphNodes := []\<rparr>)
                | Some (Inr pathNames) \<Rightarrow>
                    Some (Inr \<lparr>nodeNames = rev (pathNames @ [name (heap s ! ra)]),
                               shortestDistance = distanceOf lt re\<rparr>,
                          s\<lparr>graphNodes := []\<rparr>))"
proof -
  from mainLoop_result [OF wf, of ra] obtain k lt V where
    it: "iterations (heap s) (length (graphNodes s)) k (initLookupTable s ra, [], graphNodes s)
           = Some (lt, V, [])"
    and ml: "mainLoop (length (graphNodes s)) (initLookupTable s ra) [] s = (Inr lt, s\<lparr>graphNodes := []\<rparr>)"
    and nodes: "map node lt = graphNodes s" and V: "set V = set (graphNodes s)"
    by blast
  from re nodes obtain te where te: "getTableEntryforNode lt re = Some te"
    using getTableEntry_Some [of re lt] by auto
  then have d: "distanceOf lt re = shortestDistanceToTargetNode te" by (simp add: distanceOf_def)
  have "findShortestPathBetween s ra re =
               (case rewind (heap s) lt ra (Some re) [] of
                  None \<Rightarrow> None
                | Some (Inl e) \<Rightarrow> Some (Inl e, s\<lparr>graphNodes := []\<rparr>)
                | Some (Inr pathNames) \<Rightarrow>
                    Some (Inr \<lparr>nodeNames = rev (pathNames @ [name (heap s ! ra)]),
                               shortestDistance = distanceOf lt re\<rparr>,
                          s\<lparr>graphNodes := []\<rparr>))"
    using ra re
    by (simp add: findShortestPathBetween_def find_eq_Some ml te d split: option.splits sum.splits)
  with it ml V show ?thesis by blast
qed

subsection \<open>The graph after a query\<close>

text \<open>
  C1 (amended): a query on a loaded graph with two names that resolve, when it returns (with a
  path or with an error), leaves every node object as it was (names and adjacency arrays), but
  has removed every node from the node array of the graph, which was not empty before; the same
  query on the same graph then fails, because the names no longer resolve.
\<close>

theorem query_empties_node_list:
  assumes load: "parseGraphMl doc = Inr s"
    and a: "findByName s a = Some ra" and e: "findByName s e = Some re"
    and q: "dijkstra s a e = Some (out, s')"
  shows "heap s' = heap s \<and> graphNodes s \<noteq> [] \<and> graphNodes s' = []
         \<and> dijkstra s' a e = Some (Inl UnknownNode, s')"
proof -
  from loaded_wf_edges [OF load] have wf: "wf_edges (heap s) (graphNodes s)" .
  from a e have ra: "ra \<in> set (graphNodes s)" and re: "re \<in> set (graphNodes s)"
    by (auto dest: findByName_Some)
  from findShortestPathBetween_after_loop [OF wf ra re] obtain lt where
    f: "findShortestPathBetween s ra re =
               (case rewind (heap s) lt ra (Some re) [] of
                  None \<Rightarrow> None
                | Some (Inl e) \<Rightarrow> Some (Inl e, s\<lparr>graphNodes := []\<rparr>)
                | Some (Inr pathNames) \<Rightarrow>
                    Some (Inr \<lparr>nodeNames = rev (pathNames @ [name (heap s ! ra)]),
                               shortestDistance = distanceOf lt re\<rparr>,
                          s\<lparr>graphNodes := []\<rparr>))"
    by blast
  from q a e have "findShortestPathBetween s ra re = Some (out, s')"
    by (simp add: dijkstra_def)
  with f have s': "s' = s\<lparr>graphNodes := []\<rparr>"
    by (auto split: option.splits sum.splits)
  then have "findByName s' a = None" by (simp add: findByName_def)
  then have "dijkstra s' a e = Some (Inl UnknownNode, s')" by (simp add: dijkstra_def)
  moreover from ra have "graphNodes s \<noteq> []" by auto
  ultimately show ?thesis using s' by simp
qed

text \<open>
  \<open>query_empties_node_list\<close> at the query from A to B on the graph of scenario 2.
\<close>

theorem query_empties_node_list_witness:
  "parseGraphMl doc_two = Inr graph_two
   \<and> dijkstra graph_two ''A'' ''B''
       = Some (Inr \<lparr>nodeNames = [''A'', ''B''], shortestDistance = Finite 7\<rparr>, graph_two\<lparr>graphNodes := []\<rparr>)
   \<and> heap (graph_two\<lparr>graphNodes := []\<rparr>) = heap graph_two
   \<and> dijkstra (graph_two\<lparr>graphNodes := []\<rparr>) ''A'' ''B'' = Some (Inl UnknownNode, graph_two\<lparr>graphNodes := []\<rparr>)"
proof -
  have l: "parseGraphMl doc_two = Inr graph_two" by code_simp
  have a: "findByName graph_two ''A'' = Some 0" by code_simp
  have b: "findByName graph_two ''B'' = Some 1" by code_simp
  have q: "dijkstra graph_two ''A'' ''B''
       = Some (Inr \<lparr>nodeNames = [''A'', ''B''], shortestDistance = Finite 7\<rparr>, graph_two\<lparr>graphNodes := []\<rparr>)"
    by code_simp
  from query_empties_node_list [OF l a b q] l q show ?thesis by simp
qed

text \<open>
  C1, as the specification has it, does not hold: \<^verbatim>\<open>unvisited\<close> is the node array of the graph
  itself, and the main loop splices every node out of it. After the query from A to C on the
  chain A-B-C the node array is empty, and the same query again fails.
\<close>

theorem query_changes_graph:
  "parseGraphMl doc_chain = Inr graph_chain
   \<and> graphNodes graph_chain = [0, 1, 2]
   \<and> dijkstra graph_chain ''A'' ''C''
       = Some (Inr \<lparr>nodeNames = [''A'', ''B'', ''C''], shortestDistance = Finite 3\<rparr>,
               graph_chain\<lparr>graphNodes := []\<rparr>)
   \<and> dijkstra (graph_chain\<lparr>graphNodes := []\<rparr>) ''A'' ''C''
       = Some (Inl UnknownNode, graph_chain\<lparr>graphNodes := []\<rparr>)"
proof -
  have 1: "parseGraphMl doc_chain = Inr graph_chain" by code_simp
  have 2: "graphNodes graph_chain = [0, 1, 2]" by code_simp
  have 3: "dijkstra graph_chain ''A'' ''C''
       = Some (Inr \<lparr>nodeNames = [''A'', ''B'', ''C''], shortestDistance = Finite 3\<rparr>,
               graph_chain\<lparr>graphNodes := []\<rparr>)" by code_simp
  have 4: "dijkstra (graph_chain\<lparr>graphNodes := []\<rparr>) ''A'' ''C''
       = Some (Inl UnknownNode, graph_chain\<lparr>graphNodes := []\<rparr>)" by code_simp
  from 1 2 3 4 show ?thesis by (intro conjI)
qed

subsection \<open>Sums with a positive weight\<close>

lemma add_pos_not_less:
  "num_less (Finite 0) w \<Longrightarrow> \<not> num_less a x \<Longrightarrow> \<not> num_less (num_add a w) x"
  by (cases a; cases w; cases x) auto

lemma add_pos_nonneg: "nonneg a \<Longrightarrow> num_less (Finite 0) w \<Longrightarrow> nonneg (num_add a w)"
  by (cases a; cases w) (auto simp: nonneg_def)

lemma add_pos_less:
  "nonneg a \<Longrightarrow> num_less (Finite 0) w \<Longrightarrow> num_add a w \<noteq> Infinity \<Longrightarrow> num_less a (num_add a w)"
  by (cases a; cases w) (auto simp: nonneg_def)


lemma not_less_trans: "num_less b c \<Longrightarrow> \<not> num_less a c \<Longrightarrow> \<not> num_less a b"
  by (metis num_less_trans)

subsection \<open>Relaxing one edge with a positive weight\<close>

lemma relax_inv_relax1:
  assumes R: "relax_inv h start S u lt"
    and e: "e \<in> set (edgesToNodes (h ! u))"
    and w: "num_less (Finite 0) (weight e)"
    and tg: "targetNode e \<in> set (map node lt)"
    and uS: "u \<notin> S"
  shows "relax_inv h start S u (relax1 u lt e)
         \<and> (\<forall>x\<in>insert u S. distanceOf (relax1 u lt e) x = distanceOf lt x)"
proof (cases "num_less (num_add (distanceOf lt u) (weight e)) (distanceOf lt (targetNode e))")
  case False
  then have "relax1 u lt e = lt" by (simp add: relax1_def)
  with R show ?thesis by simp
next
  case True
  let ?t = "relax1 u lt e" and ?tg = "targetNode e" and ?nd = "num_add (distanceOf lt u) (weight e)"
  from R have nn: "nonneg_table lt" and ord: "ordered S lt"
    and min: "\<forall>y. y \<notin> S \<longrightarrow> \<not> num_less (distanceOf lt y) (distanceOf lt u)"
    and rel: "relaxed h S lt" and pr: "pred_ok h (insert u S) lt" and st: "start_ok start lt"
    by (simp_all add: relax_inv_def)
  have d: "distanceOf ?t r = (if r = ?tg then ?nd else distanceOf lt r)" for r
    using True tg by (simp add: distanceOf_relax1)
  have p: "previousOf ?t r = (if r = ?tg then Some u else previousOf lt r)" for r
    using True tg by (simp add: previousOf_relax1)
  have nd_nn: "nonneg ?nd" using nn w by (simp add: nonneg_table_def add_pos_nonneg)
  have nd_fin: "?nd \<noteq> Infinity" using True by auto
  have above: "\<not> num_less ?nd (distanceOf lt x)" if "x \<in> insert u S" for x
  proof -
    have "\<not> num_less (distanceOf lt u) (distanceOf lt x)"
    proof (cases "x = u")
      case True
      then show ?thesis by simp
    next
      case False
      with that have xS: "x \<in> S" by simp
      with ord uS show ?thesis by (simp add: ordered_def)
    qed
    with w show ?thesis by (rule add_pos_not_less)
  qed
  with True have tg_out: "?tg \<notin> insert u S" by blast
  then have keep: "\<forall>x\<in>insert u S. distanceOf ?t x = distanceOf lt x" by (auto simp: d)
  have 1: "nonneg_table ?t" using nn nd_nn by (simp add: nonneg_table_def d)
  have 2: "ordered S ?t"
    unfolding ordered_def
  proof (intro ballI allI impI)
    fix x y assume "x \<in> S" "y \<notin> S"
    with ord above [of x] tg_out show "\<not> num_less (distanceOf ?t y) (distanceOf ?t x)"
      by (auto simp: d ordered_def)
  qed
  have 3: "\<forall>y. y \<notin> S \<longrightarrow> \<not> num_less (distanceOf ?t y) (distanceOf ?t u)"
    using min above [of u] tg_out by (auto simp: d)
  have 4: "relaxed h S ?t"
    unfolding relaxed_def
  proof (intro ballI)
    fix x e' assume x: "x \<in> S" and e': "e' \<in> set (edgesToNodes (h ! x))"
    from rel x e' have old: "\<not> num_less (num_add (distanceOf lt x) (weight e')) (distanceOf lt (targetNode e'))"
      by (simp add: relaxed_def)
    from x tg_out have dx: "distanceOf ?t x = distanceOf lt x" by (auto simp: d)
    show "\<not> num_less (num_add (distanceOf ?t x) (weight e')) (distanceOf ?t (targetNode e'))"
    proof (cases "targetNode e' = ?tg")
      case True
      with old have "\<not> num_less (num_add (distanceOf lt x) (weight e')) (distanceOf lt ?tg)"
        by simp
      from not_less_trans [OF \<open>num_less ?nd (distanceOf lt ?tg)\<close> this] True show ?thesis
        unfolding dx by (simp add: d)
    next
      case False
      with old show ?thesis unfolding dx by (simp add: d)
    qed
  qed
  have 5: "pred_ok h (insert u S) ?t"
    unfolding pred_ok_def
  proof (intro allI impI)
    fix v u' assume pv: "previousOf ?t v = Some u'"
    show "u' \<in> insert u S \<and> distanceOf ?t v \<noteq> Infinity
        \<and> (\<exists>e\<in>set (edgesToNodes (h ! u')).
              targetNode e = v \<and> distanceOf ?t v = num_add (distanceOf ?t u') (weight e))"
    proof (cases "v = ?tg")
      case True
      with pv have "u' = u" by (simp add: p)
      moreover have "distanceOf ?t u = distanceOf lt u" using keep by simp
      ultimately show ?thesis using True e nd_fin by (auto simp: d)
    next
      case False
      with pv have "previousOf lt v = Some u'" by (simp add: p)
      with pr have "u' \<in> insert u S" "distanceOf lt v \<noteq> Infinity"
        "\<exists>e\<in>set (edgesToNodes (h ! u')).
              targetNode e = v \<and> distanceOf lt v = num_add (distanceOf lt u') (weight e)"
        unfolding pred_ok_def by blast+
      moreover from this(1) keep have "distanceOf ?t u' = distanceOf lt u'" by blast
      moreover from False have "distanceOf ?t v = distanceOf lt v" by (simp add: d)
      ultimately show ?thesis by simp
    qed
  qed
  have "?tg \<noteq> start"
  proof
    assume "?tg = start"
    with True st have "num_less ?nd (Finite 0)" by (simp add: start_ok_def)
    with nd_nn show False by (simp add: nonneg_def)
  qed
  with st have 6: "start_ok start ?t"
    by (auto simp: start_ok_def d p)
  from 1 2 3 4 5 6 keep show ?thesis by (simp add: relax_inv_def)
qed

lemma relax_inv_foldl:
  assumes R: "relax_inv h start S u lt"
    and es: "set es \<subseteq> set (edgesToNodes (h ! u))"
    and w: "\<forall>e\<in>set es. num_less (Finite 0) (weight e)"
    and tg: "\<forall>e\<in>set es. targetNode e \<in> set (map node lt)"
    and uS: "u \<notin> S"
  shows "relax_inv h start S u (foldl (relax1 u) lt es)
         \<and> (\<forall>x\<in>insert u S. distanceOf (foldl (relax1 u) lt es) x = distanceOf lt x)"
proof -
  let ?P = "\<lambda>t. map node t = map node lt \<and> relax_inv h start S u t
                \<and> (\<forall>x\<in>insert u S. distanceOf t x = distanceOf lt x)"
  have "?P (foldl (relax1 u) lt es)"
  proof (rule foldl_invariant [where P = ?P])
    show "?P lt" using R by simp
  next
    fix t e assume P: "?P t" and e: "e \<in> set es"
    from P have R': "relax_inv h start S u t" by simp
    from e es have e': "e \<in> set (edgesToNodes (h ! u))" by auto
    from e w have w': "num_less (Finite 0) (weight e)" by simp
    from e tg P have tg': "targetNode e \<in> set (map node t)" by simp
    from relax_inv_relax1 [OF R' e' w' tg' uS] P show "?P (relax1 u t e)" by simp
  qed
  then show ?thesis by simp
qed

lemma relax1_decreasing:
  "targetNode e \<in> set (map node lt) \<Longrightarrow>
   distanceOf (relax1 u lt e) r = distanceOf lt r \<or> num_less (distanceOf (relax1 u lt e) r) (distanceOf lt r)"
  by (auto simp: distanceOf_relax1)

lemma foldl_relax1_decreasing:
  assumes "\<forall>e\<in>set es. targetNode e \<in> set (map node lt)"
  shows "distanceOf (foldl (relax1 u) lt es) r = distanceOf lt r
         \<or> num_less (distanceOf (foldl (relax1 u) lt es) r) (distanceOf lt r)"
proof -
  let ?P = "\<lambda>t. map node t = map node lt
                \<and> (distanceOf t r = distanceOf lt r \<or> num_less (distanceOf t r) (distanceOf lt r))"
  have "?P (foldl (relax1 u) lt es)"
  proof (rule foldl_invariant [where P = ?P])
    show "?P lt" by simp
  next
    fix t e assume P: "?P t" and e: "e \<in> set es"
    with assms have "targetNode e \<in> set (map node t)" by simp
    from relax1_decreasing [OF this, of u r] P show "?P (relax1 u t e)"
      by (auto intro: num_less_trans)
  qed
  then show ?thesis by simp
qed

lemma relaxed_after:
  assumes R: "relax_inv h start S u lt"
    and es: "set es \<subseteq> set (edgesToNodes (h ! u))"
    and w: "\<forall>e\<in>set es. num_less (Finite 0) (weight e)"
    and tg: "\<forall>e\<in>set es. targetNode e \<in> set (map node lt)"
    and uS: "u \<notin> S"
  shows "\<forall>e\<in>set es. \<not> num_less (num_add (distanceOf lt u) (weight e))
                          (distanceOf (foldl (relax1 u) lt es) (targetNode e))"
  using R es w tg
proof (induction es arbitrary: lt)
  case Nil
  then show ?case by simp
next
  case (Cons e es)
  let ?t1 = "relax1 u lt e" and ?nd = "num_add (distanceOf lt u) (weight e)"
  from Cons.prems have e: "e \<in> set (edgesToNodes (h ! u))" and we: "num_less (Finite 0) (weight e)"
    and tge: "targetNode e \<in> set (map node lt)" by simp_all
  from relax_inv_relax1 [OF Cons.prems(1) e we tge uS]
  have R1: "relax_inv h start S u ?t1" and du: "distanceOf ?t1 u = distanceOf lt u" by simp_all
  have tg1: "\<forall>e\<in>set es. targetNode e \<in> set (map node ?t1)" using Cons.prems(4) by simp
  from Cons.IH [OF R1 _ _ tg1] Cons.prems(2,3)
  have rest: "\<forall>e'\<in>set es. \<not> num_less (num_add (distanceOf lt u) (weight e'))
                          (distanceOf (foldl (relax1 u) ?t1 es) (targetNode e'))"
    by (simp add: du)
  have here: "\<not> num_less ?nd (distanceOf ?t1 (targetNode e))"
    using tge by (simp add: distanceOf_relax1)
  have "\<not> num_less ?nd (distanceOf (foldl (relax1 u) ?t1 es) (targetNode e))"
    using foldl_relax1_decreasing [OF tg1, of u "targetNode e"] here
    by (metis num_less_trans)
  with rest show ?case by simp
qed

lemma dijkstra_inv_step:
  assumes D: "dijkstra_inv h start S lt"
    and uS: "u \<notin> S"
    and min: "\<forall>y. y \<notin> S \<longrightarrow> \<not> num_less (distanceOf lt y) (distanceOf lt u)"
    and w: "\<forall>e\<in>set (edgesToNodes (h ! u)). num_less (Finite 0) (weight e)"
    and tg: "\<forall>e\<in>set (edgesToNodes (h ! u)). targetNode e \<in> set (map node lt)"
  shows "dijkstra_inv h start (insert u S) (foldl (relax1 u) lt (edgesToNodes (h ! u)))"
proof -
  let ?f = "foldl (relax1 u) lt (edgesToNodes (h ! u))"
  from D have "pred_ok h S lt" by (simp add: dijkstra_inv_def)
  then have "pred_ok h (insert u S) lt" unfolding pred_ok_def by blast
  with D min have R: "relax_inv h start S u lt"
    by (simp add: dijkstra_inv_def relax_inv_def)
  from relax_inv_foldl [OF R subset_refl w tg uS]
  have Rf: "relax_inv h start S u ?f" and keep: "\<forall>x\<in>insert u S. distanceOf ?f x = distanceOf lt x"
    by simp_all
  from relaxed_after [OF R subset_refl w tg uS] keep
  have ru: "\<forall>e\<in>set (edgesToNodes (h ! u)).
             \<not> num_less (num_add (distanceOf ?f u) (weight e)) (distanceOf ?f (targetNode e))"
    by simp
  from Rf have "ordered (insert u S) ?f"
    unfolding relax_inv_def ordered_def by blast
  moreover from Rf ru have "relaxed h (insert u S) ?f"
    unfolding relax_inv_def relaxed_def by blast
  ultimately show ?thesis using Rf by (simp add: relax_inv_def dijkstra_inv_def)
qed

lemma dijkstra_inv_init:
  assumes "start \<in> set (graphNodes s)"
  shows "dijkstra_inv h start {} (initLookupTable s start)"
  using assms
  by (simp add: dijkstra_inv_def nonneg_table_def ordered_def relaxed_def pred_ok_def start_ok_def
      distanceOf_init nonneg_def)

lemma distanceOf_outside: "r \<notin> set (map node lt) \<Longrightarrow> distanceOf lt r = Infinity"
  using getTableEntry_None [of lt r] by (simp add: distanceOf_def)

lemma iterations_dijkstra_inv:
  assumes wf: "wf_edges (heap s) (graphNodes s)"
    and pos: "positive_weights (heap s) (graphNodes s)"
    and start: "start \<in> set (graphNodes s)"
    and it: "iterations (heap s) (length (graphNodes s)) k (initLookupTable s start, [], graphNodes s)
               = Some (lt, V, U)"
  shows "loop_inv (graphNodes s) (lt, V, U) \<and> dijkstra_inv (heap s) start (set V) lt"
proof -
  let ?I = "\<lambda>c. case c of (lt, V, U) \<Rightarrow> dijkstra_inv (heap s) start (set V) lt"
  have "loop_inv (graphNodes s) (lt, V, U) \<and> ?I (lt, V, U)"
  proof (rule iterations_relax_invariant [where I = ?I, OF wf loop_inv_init _ _ it])
    show "?I (initLookupTable s start, [], graphNodes s)"
      using dijkstra_inv_init [OF start] by simp
  next
    fix lt V U u
    assume inv: "loop_inv (graphNodes s) (lt, V, U)" and I: "?I (lt, V, U)"
      and u: "u \<in> set (graphNodes s)" "u \<notin> set V"
      and min: "\<forall>y\<in>set U. \<not> num_less (distanceOf lt y) (distanceOf lt u)"
    from inv have nodes: "map node lt = graphNodes s"
      and U: "U = filter (\<lambda>r. r \<notin> set V) (graphNodes s)" by (simp_all add: loop_inv_def)
    have min': "\<forall>y. y \<notin> set V \<longrightarrow> \<not> num_less (distanceOf lt y) (distanceOf lt u)"
    proof (intro allI impI)
      fix y assume y: "y \<notin> set V"
      show "\<not> num_less (distanceOf lt y) (distanceOf lt u)"
      proof (cases "y \<in> set (graphNodes s)")
        case True
        with y U min show ?thesis by simp
      next
        case False
        with nodes have "distanceOf lt y = Infinity" by (simp add: distanceOf_outside)
        then show ?thesis by simp
      qed
    qed
    from pos u have w: "\<forall>e\<in>set (edgesToNodes (heap s ! u)). num_less (Finite 0) (weight e)"
      by (simp add: positive_weights_def)
    from wf u nodes have tg: "\<forall>e\<in>set (edgesToNodes (heap s ! u)). targetNode e \<in> set (map node lt)"
      by (simp add: wf_edges_def)
    from I have "dijkstra_inv (heap s) start (set V) lt" by simp
    from dijkstra_inv_step [OF this u(2) min' w tg]
    show "?I (foldl (relax1 u) lt (edgesToNodes (heap s ! u)), V @ [u],
              filter (\<lambda>r. r \<notin> set (V @ [u])) (graphNodes s))"
      by simp
  qed
  then show ?thesis by simp
qed

lemma joined_nonempty: "joined h vs ws \<Longrightarrow> vs \<noteq> []"
  by auto

lemma joined_snoc:
  "joined h vs ws \<Longrightarrow> \<exists>e\<in>set (edgesToNodes (h ! last vs)). targetNode e = v \<and> weight e = w \<Longrightarrow>
   joined h (vs @ [v]) (ws @ [w])"
  by (induction h vs ws rule: joined.induct) auto

lemma previousOf_Some:
  "previousOf lt v = Some u \<Longrightarrow> \<exists>te. getTableEntryforNode lt v = Some te \<and> previousNode te = Some u"
  by (auto simp: previousOf_def split: option.splits)

lemma rewind_start: "rewind h lt start (Some start) acc = Some (Inr acc)"
  by (simp add: rewind.simps)

lemma rewind_step:
  "v \<noteq> start \<Longrightarrow> previousOf lt v = Some u \<Longrightarrow>
   rewind h lt start (Some v) acc = rewind h lt start (Some u) (acc @ [name (h ! v)])"
  by (subst rewind.simps) (auto dest: previousOf_Some)

lemma rewind_null:
  "v \<noteq> start \<Longrightarrow> previousOf lt v = None \<Longrightarrow> rewind h lt start (Some v) acc = Some (Inl TypeError)"
  by (subst rewind.simps, cases "getTableEntryforNode lt v")
     (simp_all add: previousOf_def rewind.simps [of h lt start None])

lemma rewind_chain:
  assumes D: "dijkstra_inv h start S lt" and SG: "S \<subseteq> set G" and pos: "positive_weights h G"
    and v: "distanceOf lt v \<noteq> Infinity"
  shows "\<exists>vs ws. joined h vs ws \<and> hd vs = start \<and> last vs = v
           \<and> foldl num_add (Finite 0) ws = distanceOf lt v
           \<and> (\<forall>acc. rewind h lt start (Some v) acc
                      = Some (Inr (acc @ rev (map (\<lambda>r. name (h ! r)) (tl vs)))))"
  using v
proof (induction "card {r \<in> set G. num_less (distanceOf lt r) (distanceOf lt v)}" arbitrary: v
       rule: less_induct)
  case less
  from D have nn: "nonneg_table lt" and pr: "pred_ok h S lt" and st: "start_ok start lt"
    by (simp_all add: dijkstra_inv_def)
  show ?case
  proof (cases "v = start")
    case True
    have "joined h [start] [] \<and> hd [start] = start \<and> last [start] = v
           \<and> foldl num_add (Finite 0) [] = distanceOf lt v
           \<and> (\<forall>acc. rewind h lt start (Some v) acc
                      = Some (Inr (acc @ rev (map (\<lambda>r. name (h ! r)) (tl [start])))))"
      using True st by (simp add: start_ok_def rewind_start)
    then show ?thesis by blast
  next
    case False
    with st less.prems obtain u where u: "previousOf lt v = Some u"
      by (auto simp: start_ok_def)
    with pr obtain e where uS: "u \<in> S" and e: "e \<in> set (edgesToNodes (h ! u))"
      and tg: "targetNode e = v" and dv: "distanceOf lt v = num_add (distanceOf lt u) (weight e)"
      unfolding pred_ok_def by blast
    from uS SG have uG: "u \<in> set G" by auto
    with pos e have w: "num_less (Finite 0) (weight e)" by (simp add: positive_weights_def)
    from nn have "nonneg (distanceOf lt u)" by (simp add: nonneg_table_def)
    from add_pos_less [OF this w] dv less.prems
    have lt_uv: "num_less (distanceOf lt u) (distanceOf lt v)" by simp
    then have du: "distanceOf lt u \<noteq> Infinity" by auto
    have "u \<in> {r \<in> set G. num_less (distanceOf lt r) (distanceOf lt v)}"
      and "u \<notin> {r \<in> set G. num_less (distanceOf lt r) (distanceOf lt u)}"
      and "{r \<in> set G. num_less (distanceOf lt r) (distanceOf lt u)}
            \<subseteq> {r \<in> set G. num_less (distanceOf lt r) (distanceOf lt v)}"
      using lt_uv uG by (auto intro: num_less_trans)
    then have "{r \<in> set G. num_less (distanceOf lt r) (distanceOf lt u)}
            \<subset> {r \<in> set G. num_less (distanceOf lt r) (distanceOf lt v)}"
      by blast
    then have "card {r \<in> set G. num_less (distanceOf lt r) (distanceOf lt u)}
            < card {r \<in> set G. num_less (distanceOf lt r) (distanceOf lt v)}"
      by (intro psubset_card_mono) simp_all
    from less.hyps [OF this du] obtain vs ws where j: "joined h vs ws" and hd: "hd vs = start"
      and last: "last vs = u" and sum: "foldl num_add (Finite 0) ws = distanceOf lt u"
      and rw: "\<forall>acc. rewind h lt start (Some u) acc
                      = Some (Inr (acc @ rev (map (\<lambda>r. name (h ! r)) (tl vs))))"
      by blast
    from j have ne: "vs \<noteq> []" by (rule joined_nonempty)
    have "joined h (vs @ [v]) (ws @ [weight e])"
      using j e tg last by (intro joined_snoc) auto
    moreover have "hd (vs @ [v]) = start" using ne hd by simp
    moreover have "foldl num_add (Finite 0) (ws @ [weight e]) = distanceOf lt v"
      using sum dv by simp
    moreover have "rewind h lt start (Some v) acc
                      = Some (Inr (acc @ rev (map (\<lambda>r. name (h ! r)) (tl (vs @ [v])))))" for acc
      using rewind_step [OF False u] rw ne by simp
    ultimately have "joined h (vs @ [v]) (ws @ [weight e]) \<and> hd (vs @ [v]) = start
           \<and> last (vs @ [v]) = v
           \<and> foldl num_add (Finite 0) (ws @ [weight e]) = distanceOf lt v
           \<and> (\<forall>acc. rewind h lt start (Some v) acc
                      = Some (Inr (acc @ rev (map (\<lambda>r. name (h ! r)) (tl (vs @ [v]))))))"
      by simp
    then show ?thesis by blast
  qed
qed

lemma rewind_unreachable:
  assumes D: "dijkstra_inv h start S lt" and v: "distanceOf lt v = Infinity"
  shows "rewind h lt start (Some v) acc = Some (Inl TypeError)"
proof -
  from D have pr: "pred_ok h S lt" and st: "start_ok start lt"
    by (simp_all add: dijkstra_inv_def)
  from st v have "v \<noteq> start" by (auto simp: start_ok_def)
  moreover from pr v have "previousOf lt v = None"
    unfolding pred_ok_def by (cases "previousOf lt v") auto
  ultimately show ?thesis by (rule rewind_null)
qed

lemma query_outcome:
  assumes wf: "wf_edges (heap s) (graphNodes s)"
    and pos: "positive_weights (heap s) (graphNodes s)"
    and ra: "ra \<in> set (graphNodes s)" and re: "re \<in> set (graphNodes s)"
  shows "\<exists>lt. mainLoop (length (graphNodes s)) (initLookupTable s ra) [] s = (Inr lt, s\<lparr>graphNodes := []\<rparr>)
           \<and> dijkstra_inv (heap s) ra (set (graphNodes s)) lt
           \<and> (if distanceOf lt re = Infinity
               then findShortestPathBetween s ra re = Some (Inl TypeError, s\<lparr>graphNodes := []\<rparr>)
               else \<exists>vs ws. joined (heap s) vs ws \<and> hd vs = ra \<and> last vs = re
                      \<and> foldl num_add (Finite 0) ws = distanceOf lt re
                      \<and> findShortestPathBetween s ra re
                          = Some (Inr \<lparr>nodeNames = map (\<lambda>r. name (heap s ! r)) vs,
                                       shortestDistance = distanceOf lt re\<rparr>,
                                  s\<lparr>graphNodes := []\<rparr>))"
proof -
  from findShortestPathBetween_after_loop [OF wf ra re] obtain k lt V where
    it: "iterations (heap s) (length (graphNodes s)) k (initLookupTable s ra, [], graphNodes s)
           = Some (lt, V, [])"
    and V: "set V = set (graphNodes s)"
    and ml: "mainLoop (length (graphNodes s)) (initLookupTable s ra) [] s = (Inr lt, s\<lparr>graphNodes := []\<rparr>)"
    and f: "findShortestPathBetween s ra re =
               (case rewind (heap s) lt ra (Some re) [] of
                  None \<Rightarrow> None
                | Some (Inl e) \<Rightarrow> Some (Inl e, s\<lparr>graphNodes := []\<rparr>)
                | Some (Inr pathNames) \<Rightarrow>
                    Some (Inr \<lparr>nodeNames = rev (pathNames @ [name (heap s ! ra)]),
                               shortestDistance = distanceOf lt re\<rparr>,
                          s\<lparr>graphNodes := []\<rparr>))"
    by blast
  from iterations_dijkstra_inv [OF wf pos ra it] V
  have D: "dijkstra_inv (heap s) ra (set (graphNodes s)) lt" by simp
  show ?thesis
  proof (cases "distanceOf lt re = Infinity")
    case True
    from rewind_unreachable [OF D True] f have
      "findShortestPathBetween s ra re = Some (Inl TypeError, s\<lparr>graphNodes := []\<rparr>)" by simp
    with ml D True show ?thesis by auto
  next
    case False
    from rewind_chain [OF D subset_refl pos False] obtain vs ws where
      j: "joined (heap s) vs ws" and hd: "hd vs = ra" and last: "last vs = re"
      and sum: "foldl num_add (Finite 0) ws = distanceOf lt re"
      and rw: "rewind (heap s) lt ra (Some re) []
                 = Some (Inr ([] @ rev (map (\<lambda>r. name (heap s ! r)) (tl vs))))"
      by blast
    from j have "vs \<noteq> []" by (rule joined_nonempty)
    with hd have "map (\<lambda>r. name (heap s ! r)) vs
        = name (heap s ! ra) # map (\<lambda>r. name (heap s ! r)) (tl vs)"
      by (cases vs) simp_all
    with f rw have "findShortestPathBetween s ra re
                          = Some (Inr \<lparr>nodeNames = map (\<lambda>r. name (heap s ! r)) vs,
                                       shortestDistance = distanceOf lt re\<rparr>,
                                  s\<lparr>graphNodes := []\<rparr>)"
      by simp
    with j hd last sum have "\<exists>vs ws. joined (heap s) vs ws \<and> hd vs = ra \<and> last vs = re
                      \<and> foldl num_add (Finite 0) ws = distanceOf lt re
                      \<and> findShortestPathBetween s ra re
                          = Some (Inr \<lparr>nodeNames = map (\<lambda>r. name (heap s ! r)) vs,
                                       shortestDistance = distanceOf lt re\<rparr>,
                                  s\<lparr>graphNodes := []\<rparr>)"
      by blast
    with ml D False show ?thesis by auto
  qed
qed

subsection \<open>A query from a node to itself\<close>

text \<open>
  C9, as the specification has it, does not hold: on the loaded graph A-B with weight -1 the
  main loop lowers the distance of the start A to -2 when B is relaxed, and the query from A to A
  returns that value.
\<close>

theorem same_node_negative_distance:
  "parseGraphMl doc_negative = Inr graph_negative
   \<and> dijkstra graph_negative ''A'' ''A''
       = Some (Inr \<lparr>nodeNames = [''A''], shortestDistance = Finite (- 2)\<rparr>,
               graph_negative\<lparr>graphNodes := []\<rparr>)"
proof -
  have 1: "parseGraphMl doc_negative = Inr graph_negative" by code_simp
  have 2: "dijkstra graph_negative ''A'' ''A''
       = Some (Inr \<lparr>nodeNames = [''A''], shortestDistance = Finite (- 2)\<rparr>,
               graph_negative\<lparr>graphNodes := []\<rparr>)" by code_simp
  from 1 2 show ?thesis by (intro conjI)
qed

text \<open>
  C9 (amended): on a loaded graph whose weights are all positive, the query from a name that
  resolves to the same name returns the one name and the distance 0.
\<close>

theorem same_node_query:
  assumes load: "parseGraphMl doc = Inr s"
    and pos: "positive_weights (heap s) (graphNodes s)"
    and a: "findByName s a = Some r"
  shows "dijkstra s a a
           = Some (Inr \<lparr>nodeNames = [a], shortestDistance = Finite 0\<rparr>, s\<lparr>graphNodes := []\<rparr>)"
proof -
  from loaded_wf_edges [OF load] have wf: "wf_edges (heap s) (graphNodes s)" .
  from findByName_Some [OF a] have r: "r \<in> set (graphNodes s)" and nm: "name (heap s ! r) = a"
    by simp_all
  from findShortestPathBetween_after_loop [OF wf r r] obtain k lt V where
    it: "iterations (heap s) (length (graphNodes s)) k (initLookupTable s r, [], graphNodes s)
           = Some (lt, V, [])"
    and f: "findShortestPathBetween s r r =
               (case rewind (heap s) lt r (Some r) [] of
                  None \<Rightarrow> None
                | Some (Inl e) \<Rightarrow> Some (Inl e, s\<lparr>graphNodes := []\<rparr>)
                | Some (Inr pathNames) \<Rightarrow>
                    Some (Inr \<lparr>nodeNames = rev (pathNames @ [name (heap s ! r)]),
                               shortestDistance = distanceOf lt r\<rparr>,
                          s\<lparr>graphNodes := []\<rparr>))"
    by blast
  from iterations_dijkstra_inv [OF wf pos r it] have "start_ok r lt"
    by (simp add: dijkstra_inv_def)
  then have "distanceOf lt r = Finite 0" by (simp add: start_ok_def)
  with f nm have "findShortestPathBetween s r r
      = Some (Inr \<lparr>nodeNames = [a], shortestDistance = Finite 0\<rparr>, s\<lparr>graphNodes := []\<rparr>)"
    by (simp add: rewind_start)
  with a show ?thesis by (simp add: dijkstra_def)
qed

lemma positive_weights_two: "positive_weights (heap graph_two) (graphNodes graph_two)"
  by (simp add: positive_weights_def graph_two_def mkGraphNode_def)

text \<open>
  \<open>same_node_query\<close> at the query from B to B on the graph of scenario 2.
\<close>

theorem same_node_query_witness:
  "parseGraphMl doc_two = Inr graph_two
   \<and> dijkstra graph_two ''B'' ''B''
       = Some (Inr \<lparr>nodeNames = [''B''], shortestDistance = Finite 0\<rparr>, graph_two\<lparr>graphNodes := []\<rparr>)"
proof -
  have l: "parseGraphMl doc_two = Inr graph_two" by code_simp
  have b: "findByName graph_two ''B'' = Some 1" by code_simp
  from same_node_query [OF l positive_weights_two b] l show ?thesis by simp
qed

subsection \<open>The distance and the path returned\<close>

text \<open>
  C5, as the specification has it, does not hold: on the loaded chain A-B (-2), B-C (3) the query
  from A to A returns the single name A and the distance -4, which is the weight of no walk
  along that sequence.
\<close>

theorem distance_is_not_path_sum:
  "parseGraphMl doc_negative_chain = Inr graph_negative_chain
   \<and> dijkstra graph_negative_chain ''A'' ''A''
       = Some (Inr \<lparr>nodeNames = [''A''], shortestDistance = Finite (- 4)\<rparr>,
               graph_negative_chain\<lparr>graphNodes := []\<rparr>)
   \<and> \<not> (\<exists>vs ws. joined (heap graph_negative_chain) vs ws
              \<and> map (\<lambda>v. name (heap graph_negative_chain ! v)) vs = [''A'']
              \<and> foldl num_add (Finite 0) ws = Finite (- 4))"
proof -
  have 1: "parseGraphMl doc_negative_chain = Inr graph_negative_chain" by code_simp
  have 2: "dijkstra graph_negative_chain ''A'' ''A''
       = Some (Inr \<lparr>nodeNames = [''A''], shortestDistance = Finite (- 4)\<rparr>,
               graph_negative_chain\<lparr>graphNodes := []\<rparr>)" by code_simp
  have 3: "\<not> (\<exists>vs ws. joined (heap graph_negative_chain) vs ws
              \<and> map (\<lambda>v. name (heap graph_negative_chain ! v)) vs = [''A'']
              \<and> foldl num_add (Finite 0) ws = Finite (- 4))"
  proof
    assume "\<exists>vs ws. joined (heap graph_negative_chain) vs ws
              \<and> map (\<lambda>v. name (heap graph_negative_chain ! v)) vs = [''A'']
              \<and> foldl num_add (Finite 0) ws = Finite (- 4)"
    then obtain vs ws where j: "joined (heap graph_negative_chain) vs ws"
      and m: "map (\<lambda>v. name (heap graph_negative_chain ! v)) vs = [''A'']"
      and f: "foldl num_add (Finite 0) ws = Finite (- 4)" by auto
    from m obtain v where "vs = [v]" by (cases vs) auto
    with j have "ws = []" by simp
    with f show False by simp
  qed
  from 1 2 3 show ?thesis by (intro conjI)
qed

text \<open>
  C5 (amended): when a query on a loaded graph with positive weights returns a result, the
  returned distance is the distance that the table holds for the target after the main loop, and
  it is the sum of the weights along a walk of the graph whose nodes carry the returned names, the
  first of them the start name and the last the target name.
\<close>

theorem path_sum:
  assumes load: "parseGraphMl doc = Inr s"
    and pos: "positive_weights (heap s) (graphNodes s)"
    and q: "dijkstra s a e = Some (Inr r, s')"
  shows "\<exists>ra re lt vs ws. findByName s a = Some ra \<and> findByName s e = Some re
           \<and> mainLoop (length (graphNodes s)) (initLookupTable s ra) [] s = (Inr lt, s')
           \<and> shortestDistance r = distanceOf lt re
           \<and> joined (heap s) vs ws \<and> hd vs = ra \<and> last vs = re
           \<and> nodeNames r = map (\<lambda>v. name (heap s ! v)) vs
           \<and> shortestDistance r = foldl num_add (Finite 0) ws
           \<and> hd (nodeNames r) = a \<and> last (nodeNames r) = e"
proof -
  from loaded_wf_edges [OF load] have wf: "wf_edges (heap s) (graphNodes s)" .
  from q obtain ra re where a: "findByName s a = Some ra" and e: "findByName s e = Some re"
    and f: "findShortestPathBetween s ra re = Some (Inr r, s')"
    by (auto simp: dijkstra_def split: option.splits)
  from findByName_Some [OF a] have ra: "ra \<in> set (graphNodes s)" and na: "name (heap s ! ra) = a"
    by simp_all
  from findByName_Some [OF e] have re: "re \<in> set (graphNodes s)" and ne: "name (heap s ! re) = e"
    by simp_all
  from query_outcome [OF wf pos ra re] obtain lt where
    ml: "mainLoop (length (graphNodes s)) (initLookupTable s ra) [] s = (Inr lt, s\<lparr>graphNodes := []\<rparr>)"
    and out: "if distanceOf lt re = Infinity
               then findShortestPathBetween s ra re = Some (Inl TypeError, s\<lparr>graphNodes := []\<rparr>)
               else \<exists>vs ws. joined (heap s) vs ws \<and> hd vs = ra \<and> last vs = re
                      \<and> foldl num_add (Finite 0) ws = distanceOf lt re
                      \<and> findShortestPathBetween s ra re
                          = Some (Inr \<lparr>nodeNames = map (\<lambda>r. name (heap s ! r)) vs,
                                       shortestDistance = distanceOf lt re\<rparr>,
                                  s\<lparr>graphNodes := []\<rparr>)"
    by blast
  from out f have "distanceOf lt re \<noteq> Infinity" by auto
  with out obtain vs ws where j: "joined (heap s) vs ws" and hd: "hd vs = ra" and last: "last vs = re"
    and sum: "foldl num_add (Finite 0) ws = distanceOf lt re"
    and res: "findShortestPathBetween s ra re
                = Some (Inr \<lparr>nodeNames = map (\<lambda>r. name (heap s ! r)) vs,
                             shortestDistance = distanceOf lt re\<rparr>,
                        s\<lparr>graphNodes := []\<rparr>)"
    by auto
  from res f have r: "r = \<lparr>nodeNames = map (\<lambda>r. name (heap s ! r)) vs,
                             shortestDistance = distanceOf lt re\<rparr>"
    and s': "s' = s\<lparr>graphNodes := []\<rparr>" by simp_all
  from j have nonempty: "vs \<noteq> []" by (rule joined_nonempty)
  have "hd (nodeNames r) = a" using nonempty hd na by (simp add: r hd_map)
  moreover have "last (nodeNames r) = e" using nonempty last ne by (simp add: r last_map)
  ultimately have "findByName s a = Some ra \<and> findByName s e = Some re
           \<and> mainLoop (length (graphNodes s)) (initLookupTable s ra) [] s = (Inr lt, s')
           \<and> shortestDistance r = distanceOf lt re
           \<and> joined (heap s) vs ws \<and> hd vs = ra \<and> last vs = re
           \<and> nodeNames r = map (\<lambda>v. name (heap s ! v)) vs
           \<and> shortestDistance r = foldl num_add (Finite 0) ws
           \<and> hd (nodeNames r) = a \<and> last (nodeNames r) = e"
    using a e ml j hd last sum s' by (simp add: r)
  then show ?thesis by blast
qed

text \<open>
  \<open>path_sum\<close> at the query from A to B on the graph of scenario 2.
\<close>

theorem path_sum_witness:
  "parseGraphMl doc_two = Inr graph_two
   \<and> dijkstra graph_two ''A'' ''B''
       = Some (Inr \<lparr>nodeNames = [''A'', ''B''], shortestDistance = Finite 7\<rparr>, graph_two\<lparr>graphNodes := []\<rparr>)
   \<and> (\<exists>vs ws. joined (heap graph_two) vs ws
         \<and> [''A'', ''B''] = map (\<lambda>v. name (heap graph_two ! v)) vs
         \<and> Finite 7 = foldl num_add (Finite 0) ws)"
proof -
  have l: "parseGraphMl doc_two = Inr graph_two" by code_simp
  have q: "dijkstra graph_two ''A'' ''B''
       = Some (Inr \<lparr>nodeNames = [''A'', ''B''], shortestDistance = Finite 7\<rparr>, graph_two\<lparr>graphNodes := []\<rparr>)"
    by code_simp
  from path_sum [OF l positive_weights_two q] obtain vs ws where
    "joined (heap graph_two) vs ws"
    "nodeNames \<lparr>nodeNames = [''A'', ''B''], shortestDistance = Finite 7\<rparr>
       = map (\<lambda>v. name (heap graph_two ! v)) vs"
    "shortestDistance \<lparr>nodeNames = [''A'', ''B''], shortestDistance = Finite 7\<rparr>
       = foldl num_add (Finite 0) ws"
    by blast
  then have "joined (heap graph_two) vs ws
         \<and> [''A'', ''B''] = map (\<lambda>v. name (heap graph_two ! v)) vs
         \<and> Finite 7 = foldl num_add (Finite 0) ws"
    by simp
  then have "\<exists>vs ws. joined (heap graph_two) vs ws
         \<and> [''A'', ''B''] = map (\<lambda>v. name (heap graph_two ! v)) vs
         \<and> Finite 7 = foldl num_add (Finite 0) ws"
    by - (rule exI, rule exI)
  with l q show ?thesis by simp
qed

subsection \<open>Walks\<close>











subsection \<open>No walk is shorter than the distance found\<close>



subsection \<open>The two directions of a query\<close>





subsection \<open>Relaxing from a node at infinite distance\<close>





subsection \<open>Reachable nodes\<close>
























subsection \<open>The table after the main loop\<close>





end
